theory Spec2Isabelle
  imports Main
begin

section \<open>Yark: the archive synchronisation engine of \<^verbatim>\<open>yark/archive.py\<close>\<close>

text \<open>
  The development embeds the functions of \<^verbatim>\<open>yark/archive.py\<close>. Python objects are
  mutable and shared (a video sits in a bucket of the archive, in the list handed to the
  downloader and in the lists of the reporter at once), so video objects live in an explicit
  store and the lists hold references to them. Exceptions and \<^verbatim>\<open>sys.exit\<close> are values of a
  sum type.
\<close>

subsection \<open>Configuration\<close>

text \<open>
  The attributes of \<^verbatim>\<open>Config\<close> that \<^verbatim>\<open>yark/cli.py\<close> sets and \<^verbatim>\<open>yark/archive.py\<close> reads.
  A maximum is an unbounded Python integer, or \<^verbatim>\<open>None\<close> when no maximum is set.
\<close>

record config =
  max_videos :: "int option"
  max_livestreams :: "int option"
  max_shorts :: "int option"
  comments :: bool
  skip_metadata :: bool
  skip_download :: bool
  format :: "string option"
  proxy :: "string option"

subsection \<open>The archive\<close>

text \<open>
  The fields of class \<^verbatim>\<open>Archive\<close>. The type \<open>'v\<close> is what a bucket holds for a video
  (a reference into the store of video objects, or a decoded video), \<open>'a\<close> is a comment
  author. The reporter of the archive is the pair of lists \<^verbatim>\<open>reporter.added\<close> and
  \<^verbatim>\<open>reporter.deleted\<close>.
\<close>

record ('v, 'a) archive =
  path :: string
  version :: int
  url :: string
  videos :: "'v list"
  livestreams :: "'v list"
  shorts :: "'v list"
  comment_authors :: "string \<rightharpoonup> 'a"
  reporter_added :: "'v list"
  reporter_deleted :: "'v list"

datatype error =
    VideoNotFoundException string
  | SkipNothingFound
  | DownloadError string
  | OtherException string
  | KeyError string
  | TypeError
  | SystemExit int

subsection \<open>Curation (\<^verbatim>\<open>Archive._curate\<close>)\<close>

text \<open>
  \<^verbatim>\<open>curate_list\<close> is the local function of \<^verbatim>\<open>Archive._curate\<close>. The method
  \<^verbatim>\<open>Video.downloaded()\<close> looks at the files on disk; it is the parameter \<open>downloaded\<close>.
  \<^verbatim>\<open>range(fixed_maximum)\<close> is empty for a negative \<^verbatim>\<open>fixed_maximum\<close>, as \<open>nat\<close> of a
  negative integer is \<open>0\<close>; every index it yields is below \<^verbatim>\<open>len(videos)\<close>. The
  parameter \<^verbatim>\<open>videos\<close> of the source is \<open>vids\<close> here (\<open>videos\<close> is the field of the archive).
\<close>

fun curate_list :: "('v \<Rightarrow> bool) \<Rightarrow> 'v list \<Rightarrow> int option \<Rightarrow> 'v list" where
  "curate_list downloaded vids None = filter (\<lambda>video. \<not> downloaded video) vids"
| "curate_list downloaded vids (Some maximum) =
     (let fixed_maximum = min (max (int (length vids) - 1) 0) maximum;
          new_videos = map (\<lambda>ind. vids ! ind) [0..<nat fixed_maximum]
      in filter (\<lambda>video. \<not> downloaded video) new_videos)"

definition curate :: "('v \<Rightarrow> bool) \<Rightarrow> config \<Rightarrow> ('v, 'a, 'm) archive_scheme \<Rightarrow> 'v list" where
  "curate downloaded cfg self =
     curate_list downloaded (videos self) (max_videos cfg)
     @ curate_list downloaded (livestreams self) (max_livestreams cfg)
     @ curate_list downloaded (shorts self) (max_shorts cfg)"

subsection \<open>Lookup (\<^verbatim>\<open>Archive.search\<close>)\<close>

text \<open>
  The loop of \<^verbatim>\<open>Archive.search\<close> runs over \<^verbatim>\<open>self.videos\<close> and returns the first video
  with the id; \<open>id_of\<close> reads the attribute \<^verbatim>\<open>id\<close> of a video.
\<close>

fun search_loop :: "('v \<Rightarrow> string) \<Rightarrow> 'v list \<Rightarrow> string \<Rightarrow> 'v option" where
  "search_loop id_of [] i = None"
| "search_loop id_of (video # rest) i =
     (if id_of video = i then Some video else search_loop id_of rest i)"

definition search :: "('v \<Rightarrow> string) \<Rightarrow> ('v, 'a, 'm) archive_scheme \<Rightarrow> string \<Rightarrow> error + 'v" where
  "search id_of self i =
     (case search_loop id_of (videos self) i of
        Some video \<Rightarrow> Inr video
      | None \<Rightarrow> Inl (VideoNotFoundException (''Couldn't find '' @ i @ '' inside archive'')))"

subsection \<open>Time-tracked elements and videos\<close>

text \<open>
  Modelled from the spec: class \<^verbatim>\<open>Element\<close> of \<^verbatim>\<open>yark/video.py\<close>, which is not among
  the sources. A time-tracked value is an insertion-ordered, append-only sequence of
  (timestamp, value) pairs. \<open>current\<close> is the value of the last entry; on an empty history
  it is \<open>None\<close>, which stands for the default the spec leaves unnamed. \<open>element_update\<close>
  appends iff the value differs from \<open>current\<close>; the timestamp \<^verbatim>\<open>None\<close> means now, and the
  clock reading is the parameter \<open>now\<close>.
\<close>

type_synonym time = nat

type_synonym 'x element = "(time \<times> 'x) list"

definition element_new :: "time \<Rightarrow> 'x \<Rightarrow> 'x element" where
  "element_new now data = [(now, data)]"

definition current :: "'x element \<Rightarrow> 'x option" where
  "current e = (if e = [] then None else Some (snd (last e)))"

definition element_update :: "time \<Rightarrow> time option \<Rightarrow> 'x \<Rightarrow> 'x element \<Rightarrow> 'x element" where
  "element_update now timestamp data e =
     (if current e \<noteq> Some data
      then e @ [(case timestamp of None \<Rightarrow> now | Some t \<Rightarrow> t, data)]
      else e)"

text \<open>
  Modelled from the spec: class \<^verbatim>\<open>Video\<close> of \<^verbatim>\<open>yark/video.py\<close>, which is not among the
  sources. \<^verbatim>\<open>yark/archive.py\<close> reads the attributes \<^verbatim>\<open>id\<close>, \<^verbatim>\<open>deleted\<close> and
  \<^verbatim>\<open>known_not_deleted\<close>; the spec gives the time-tracked attributes and the recency key
  (\<open>uploaded\<close>) by which a bucket is sorted. The spec names the comments of an item but not
  how a snapshot is merged into them; they are not part of this record.
\<close>

record video =
  video_id :: string
  uploaded :: int
  title :: "string element"
  description :: "string element"
  views :: "int element"
  likes :: "int option element"
  thumbnail :: "string element"
  deleted :: "bool element"
  known_not_deleted :: bool

text \<open>
  The Python heap: a bucket holds references, the store maps a reference to the video
  object it denotes, and \<open>next_ref\<close> is the next unused reference. The world is the archive
  object together with the store.
\<close>

type_synonym ref = nat

record 'a world = "(ref, 'a) archive" +
  store :: "ref \<Rightarrow> video"
  next_ref :: ref

subsection \<open>Deletion reporting (\<^verbatim>\<open>Archive._report_deleted\<close>)\<close>

definition flag_deleted :: "time \<Rightarrow> video \<Rightarrow> video" where
  "flag_deleted now v = v\<lparr>deleted := element_update now None True (deleted v)\<rparr>"

definition unreported :: "'a world \<Rightarrow> ref \<Rightarrow> bool" where
  "unreported self video \<longleftrightarrow>
     current (deleted (store self video)) = Some False
     \<and> \<not> known_not_deleted (store self video)"

fun report_deleted :: "time \<Rightarrow> ref list \<Rightarrow> 'a world \<Rightarrow> 'a world" where
  "report_deleted now [] self = self"
| "report_deleted now (video # rest) self =
     report_deleted now rest
       (if unreported self video
        then self\<lparr>reporter_deleted := reporter_deleted self @ [video],
                  store := (store self)(video := flag_deleted now (store self video))\<rparr>
        else self)"

definition newly_reported :: "'a world \<Rightarrow> 'a world \<Rightarrow> ref list" where
  "newly_reported self self' = drop (length (reporter_deleted self)) (reporter_deleted self')"

subsection \<open>Example values\<close>

text \<open>Concrete videos and a concrete world, on which the theorems are instantiated.\<close>

definition example_video :: "string \<Rightarrow> bool \<Rightarrow> bool \<Rightarrow> video" where
  "example_video i del known =
     \<lparr>video_id = i, uploaded = 0, title = [(0, ''t'')], description = [(0, ''d'')],
      views = [(0, 1)], likes = [(0, None)], thumbnail = [(0, ''th'')],
      deleted = [(0, del)], known_not_deleted = known\<rparr>"

definition example_world :: "nat world" where
  "example_world =
     \<lparr>path = ''demo'', version = 4, url = ''https://www.youtube.com/channel/x'',
      videos = [0, 1, 2], livestreams = [], shorts = [],
      comment_authors = Map.empty, reporter_added = [], reporter_deleted = [],
      store = (\<lambda>r. if r = 0 then example_video ''a'' False False
                    else if r = 1 then example_video ''b'' False True
                    else example_video ''c'' True False),
      next_ref = 3\<rparr>"

definition example_world_live :: "nat world" where
  "example_world_live =
     \<lparr>path = ''demo'', version = 4, url = ''https://www.youtube.com/channel/x'',
      videos = [0], livestreams = [1], shorts = [2],
      comment_authors = Map.empty, reporter_added = [], reporter_deleted = [],
      store = (\<lambda>r. if r = 0 then example_video ''a'' False False
                    else if r = 1 then example_video ''b'' False True
                    else example_video ''c'' True False),
      next_ref = 3\<rparr>"

subsection \<open>Download failures (\<^verbatim>\<open>_skip_video\<close>, \<^verbatim>\<open>Archive._dl_exception_handle\<close>)\<close>

text \<open>
  \<open>contains sub s\<close> is Python's \<^verbatim>\<open>sub in s\<close> on strings: \<open>sub\<close> occurs in \<open>s\<close> as a
  contiguous run.
\<close>

fun starts_with :: "string \<Rightarrow> string \<Rightarrow> bool" where
  "starts_with [] s = True"
| "starts_with (c # cs) [] = False"
| "starts_with (c # cs) (d # ds) = (c = d \<and> starts_with cs ds)"

fun contains :: "string \<Rightarrow> string \<Rightarrow> bool" where
  "contains sub [] = (sub = [])"
| "contains sub (c # cs) = (starts_with sub (c # cs) \<or> contains sub cs)"

text \<open>
  \<^verbatim>\<open>_skip_video\<close> walks \<^verbatim>\<open>enumerate(videos)\<close>; at the first video that is not downloaded
  it prints a line (to standard error for a warning, to standard output otherwise; the
  terminal styling and the bullet are left out) and returns the slice
  \<^verbatim>\<open>videos[ind + 1 :]\<close> with the video. The printed line is returned as a third component.
  When every video is downloaded it raises a plain \<^verbatim>\<open>Exception\<close>, here \<open>SkipNothingFound\<close>.
\<close>

datatype stream = Stdout | Stderr

type_synonym notice = "stream \<times> string"

fun skip_video_loop ::
  "('v \<Rightarrow> bool) \<Rightarrow> ('v \<Rightarrow> string) \<Rightarrow> string \<Rightarrow> bool \<Rightarrow> 'v list \<Rightarrow> nat \<Rightarrow> 'v list
     \<Rightarrow> error + ('v list \<times> 'v \<times> notice)" where
  "skip_video_loop downloaded id_of reason warning vids ind [] = Inl SkipNothingFound"
| "skip_video_loop downloaded id_of reason warning vids ind (video # rest) =
     (if \<not> downloaded video
      then Inr (drop (ind + 1) vids, video,
                (if warning then Stderr else Stdout,
                 ''Skipping '' @ id_of video @ '' ('' @ reason @ '')''))
      else skip_video_loop downloaded id_of reason warning vids (ind + 1) rest)"

definition skip_video ::
  "('v \<Rightarrow> bool) \<Rightarrow> ('v \<Rightarrow> string) \<Rightarrow> 'v list \<Rightarrow> string \<Rightarrow> bool
     \<Rightarrow> error + ('v list \<times> 'v \<times> notice)" where
  "skip_video downloaded id_of vids reason warning =
     skip_video_loop downloaded id_of reason warning vids 0 vids"

text \<open>
  \<^verbatim>\<open>Archive._dl_exception_handle\<close>: \<open>msg\<close> is \<^verbatim>\<open>exception.msg\<close> of the
  \<^verbatim>\<open>DownloadError\<close>; \<open>downloaded\<close> is \<^verbatim>\<open>Video.downloaded()\<close> at the time of the call.
  The result is the returned list (\<^verbatim>\<open>Optional\<close>), the world as the call leaves it and
  the lines printed; \<^verbatim>\<open>raise exception\<close> is \<open>Inl (DownloadError msg)\<close>.
\<close>

definition dl_exception_handle ::
  "time \<Rightarrow> (ref \<Rightarrow> bool) \<Rightarrow> ref list \<Rightarrow> string \<Rightarrow> 'a world
     \<Rightarrow> error + (ref list option \<times> 'a world \<times> notice list)" where
  "dl_exception_handle now downloaded not_downloaded msg self =
     (if contains ''Private video'' msg
         \<or> contains ''This video has been removed by the uploader'' msg
      then
        (case skip_video downloaded (\<lambda>r. video_id (store self r)) not_downloaded ''deleted'' False of
           Inl err \<Rightarrow> Inl err
         | Inr (new_not_downloaded, video, n) \<Rightarrow>
             Inr (Some new_not_downloaded,
                  (if current (deleted (store self video)) = Some False
                   then self\<lparr>reporter_deleted := reporter_deleted self @ [video],
                             store := (store self)(video := flag_deleted now (store self video))\<rparr>
                   else self),
                  [n]))
      else if contains '' bytes, expected '' msg
      then
        (case skip_video downloaded (\<lambda>r. video_id (store self r)) not_downloaded
                ''no format found; please download ffmpeg!'' True of
           Inl err \<Rightarrow> Inl err
         | Inr (new_not_downloaded, video, n) \<Rightarrow> Inr (Some new_not_downloaded, self, [n]))
      else Inl (DownloadError msg))"

text \<open>The reading of the spec: the list with its first item that is not downloaded taken out.\<close>

fun remove_first_undownloaded :: "('v \<Rightarrow> bool) \<Rightarrow> 'v list \<Rightarrow> 'v list" where
  "remove_first_undownloaded downloaded [] = []"
| "remove_first_undownloaded downloaded (video # rest) =
     (if \<not> downloaded video then rest else video # remove_first_undownloaded downloaded rest)"

text \<open>The two tests on the message that \<^verbatim>\<open>_dl_exception_handle\<close> makes, and the line
  \<^verbatim>\<open>_skip_video\<close> prints, under names.\<close>

definition private_or_removed :: "string \<Rightarrow> bool" where
  "private_or_removed msg \<longleftrightarrow>
     contains ''Private video'' msg
     \<or> contains ''This video has been removed by the uploader'' msg"

definition bytes_mismatch :: "string \<Rightarrow> bool" where
  "bytes_mismatch msg \<longleftrightarrow> contains '' bytes, expected '' msg"

definition skip_notice :: "bool \<Rightarrow> string \<Rightarrow> string \<Rightarrow> notice" where
  "skip_notice warning i reason =
     (if warning then Stderr else Stdout, ''Skipping '' @ i @ '' ('' @ reason @ '')'')"

subsection \<open>Metadata ingestion (\<^verbatim>\<open>Archive._parse_metadata\<close>, \<^verbatim>\<open>_parse_metadata_video\<close>)\<close>

text \<open>
  One entry of the raw snapshot that the metadata fetch returns, as a typed transfer
  structure with the fields the spec lists for the collaborator (id, title, description,
  view count, like count, thumbnail, format list, upload recency). \<open>formats\<close> is \<open>None\<close>
  when the key \<^verbatim>\<open>"formats"\<close> is absent.
\<close>

record entry =
  entry_id :: string
  formats :: "string list option"
  entry_title :: string
  entry_description :: string
  view_count :: int
  like_count :: "int option"
  entry_thumbnail :: string
  upload_date :: int

definition has_formats :: "entry \<Rightarrow> bool" where
  "has_formats e = (case formats e of None \<Rightarrow> False | Some fs \<Rightarrow> length fs \<noteq> 0)"

text \<open>
  \<^verbatim>\<open>Archive._parse_metadata_video\<close> works on the bucket list it is handed and on the
  archive; the pair of both is threaded through. \<^verbatim>\<open>Video.update\<close> and \<^verbatim>\<open>Video.new\<close>
  (of \<^verbatim>\<open>yark/video.py\<close>) are the parameters \<open>video_update\<close> and \<open>video_new\<close>: they give the
  video and may extend the registry of comment authors that they reach through the archive.
  The \<^verbatim>\<open>for\<close> loop with \<^verbatim>\<open>break\<close> finds the first video of the bucket with the id of
  the entry. A new video object gets the next unused reference.
\<close>

definition parse_metadata_video ::
  "(config \<Rightarrow> entry \<Rightarrow> video \<Rightarrow> (string \<rightharpoonup> 'a) \<Rightarrow> video \<times> (string \<rightharpoonup> 'a))
   \<Rightarrow> (config \<Rightarrow> entry \<Rightarrow> (string \<rightharpoonup> 'a) \<Rightarrow> video \<times> (string \<rightharpoonup> 'a))
   \<Rightarrow> config \<Rightarrow> entry \<Rightarrow> ref list \<times> 'a world \<Rightarrow> ref list \<times> 'a world" where
  "parse_metadata_video video_update video_new cfg e bw =
     (case bw of (vids, self) \<Rightarrow>
        if \<not> has_formats e then (vids, self)
        else
          (case find (\<lambda>video. video_id (store self video) = entry_id e) vids of
             Some video \<Rightarrow>
               (case video_update cfg e (store self video) (comment_authors self) of
                  (v, authors) \<Rightarrow>
                    (vids, self\<lparr>comment_authors := authors,
                                store := (store self)(video := v)\<rparr>))
           | None \<Rightarrow>
               (case video_new cfg e (comment_authors self) of
                  (v, authors) \<Rightarrow>
                    (vids @ [next_ref self],
                     self\<lparr>comment_authors := authors,
                          reporter_added := reporter_added self @ [next_ref self],
                          store := (store self)(next_ref self := v),
                          next_ref := Suc (next_ref self)\<rparr>))))"

text \<open>
  Modelled from the spec: the order of videos (\<^verbatim>\<open>Video.__lt__\<close> of \<^verbatim>\<open>yark/video.py\<close>),
  which is not among the sources. \<^verbatim>\<open>videos.sort(reverse=True)\<close> sorts newest first by the
  recency key of the video and keeps videos of equal key in their order.
\<close>

definition sort_newest :: "(ref \<Rightarrow> video) \<Rightarrow> ref list \<Rightarrow> ref list" where
  "sort_newest st vids = sort_key (\<lambda>video. - uploaded (st video)) vids"

definition parse_metadata ::
  "(config \<Rightarrow> entry \<Rightarrow> video \<Rightarrow> (string \<rightharpoonup> 'a) \<Rightarrow> video \<times> (string \<rightharpoonup> 'a))
   \<Rightarrow> (config \<Rightarrow> entry \<Rightarrow> (string \<rightharpoonup> 'a) \<Rightarrow> video \<times> (string \<rightharpoonup> 'a))
   \<Rightarrow> config \<Rightarrow> entry list \<Rightarrow> ref list \<times> 'a world \<Rightarrow> ref list \<times> 'a world" where
  "parse_metadata video_update video_new cfg entries bw =
     (case fold (parse_metadata_video video_update video_new cfg) entries bw of
        (vids, self) \<Rightarrow> (sort_newest (store self) vids, self))"

text \<open>
  Modelled from the spec: \<^verbatim>\<open>Video.new\<close> and \<^verbatim>\<open>Video.update\<close> of \<^verbatim>\<open>yark/video.py\<close>,
  which are not among the sources. A new item seeds the history of each attribute with a
  single entry at now; an update calls the update of each tracked attribute with the
  corresponding field of the snapshot. Both mark the item as present in this pass.
\<close>

definition video_new :: "time \<Rightarrow> config \<Rightarrow> entry \<Rightarrow> video" where
  "video_new now cfg e =
     \<lparr>video_id = entry_id e,
      uploaded = upload_date e,
      title = element_new now (entry_title e),
      description = element_new now (entry_description e),
      views = element_new now (view_count e),
      likes = element_new now (like_count e),
      thumbnail = element_new now (entry_thumbnail e),
      deleted = element_new now False,
      known_not_deleted = True\<rparr>"

definition video_update :: "time \<Rightarrow> config \<Rightarrow> entry \<Rightarrow> video \<Rightarrow> video" where
  "video_update now cfg e v =
     v\<lparr>title := element_update now None (entry_title e) (title v),
       description := element_update now None (entry_description e) (description v),
       views := element_update now None (view_count e) (views v),
       likes := element_update now None (like_count e) (likes v),
       thumbnail := element_update now None (entry_thumbnail e) (thumbnail v),
       known_not_deleted := True\<rparr>"

definition example_entry :: "string \<Rightarrow> string \<Rightarrow> entry" where
  "example_entry i t =
     \<lparr>entry_id = i, formats = Some [''mp4''], entry_title = t, entry_description = ''d'',
      view_count = 1, like_count = None, entry_thumbnail = ''th'', upload_date = 0\<rparr>"

definition example_config :: config where
  "example_config =
     \<lparr>max_videos = None, max_livestreams = None, max_shorts = None, comments = False,
      skip_metadata = False, skip_download = False, format = None, proxy = None\<rparr>"

subsection \<open>An ingestion pass (\<^verbatim>\<open>Archive.metadata\<close>)\<close>

text \<open>
  The part of \<^verbatim>\<open>Archive.metadata\<close> that follows the fetch, from the three lists of
  entries into which the listing has been split by kind: the three buckets are parsed in
  turn, then deletions are reported for the three buckets in turn. The buckets are lists
  that \<^verbatim>\<open>_parse_metadata\<close> extends and sorts in place, so the parsed lists are the buckets
  of the archive afterwards.
\<close>

definition ingest ::
  "(config \<Rightarrow> entry \<Rightarrow> video \<Rightarrow> (string \<rightharpoonup> 'a) \<Rightarrow> video \<times> (string \<rightharpoonup> 'a))
   \<Rightarrow> (config \<Rightarrow> entry \<Rightarrow> (string \<rightharpoonup> 'a) \<Rightarrow> video \<times> (string \<rightharpoonup> 'a))
   \<Rightarrow> time \<Rightarrow> config \<Rightarrow> entry list \<Rightarrow> entry list \<Rightarrow> entry list \<Rightarrow> 'a world \<Rightarrow> 'a world" where
  "ingest upd new now cfg video_entries livestream_entries shorts_entries self =
     (case parse_metadata upd new cfg video_entries (videos self, self) of
        (vs, s1) \<Rightarrow>
     (case parse_metadata upd new cfg livestream_entries (livestreams self, s1) of
        (ls, s2) \<Rightarrow>
     (case parse_metadata upd new cfg shorts_entries (shorts self, s2) of
        (ss, s3) \<Rightarrow>
          (report_deleted now ss (report_deleted now ls (report_deleted now vs s3)))
            \<lparr>videos := vs, livestreams := ls, shorts := ss\<rparr>)))"

text \<open>
  \<^verbatim>\<open>Video.update\<close> and \<^verbatim>\<open>Video.new\<close> are parameters of the pass. \<open>marks_present\<close> is what
  the deletion report needs of them: both leave the video marked as present
  (\<open>known_not_deleted\<close>), and an update keeps the id of the video.
\<close>

definition marks_present ::
  "(config \<Rightarrow> entry \<Rightarrow> video \<Rightarrow> (string \<rightharpoonup> 'a) \<Rightarrow> video \<times> (string \<rightharpoonup> 'a))
   \<Rightarrow> (config \<Rightarrow> entry \<Rightarrow> (string \<rightharpoonup> 'a) \<Rightarrow> video \<times> (string \<rightharpoonup> 'a)) \<Rightarrow> bool" where
  "marks_present upd new \<longleftrightarrow>
     (\<forall>cfg e v au. known_not_deleted (fst (upd cfg e v au))
        \<and> video_id (fst (upd cfg e v au)) = video_id v)
     \<and> (\<forall>cfg e au. known_not_deleted (fst (new cfg e au)))"

text \<open>
  Modelled from the spec: the two parameters as \<^verbatim>\<open>Video.update\<close> and \<^verbatim>\<open>Video.new\<close> of
  \<^verbatim>\<open>yark/video.py\<close>, which are not among the sources, with the comment authors left as
  they are.
\<close>

definition spec_update ::
  "time \<Rightarrow> config \<Rightarrow> entry \<Rightarrow> video \<Rightarrow> (string \<rightharpoonup> 'a) \<Rightarrow> video \<times> (string \<rightharpoonup> 'a)" where
  "spec_update now cfg e v authors = (video_update now cfg e v, authors)"

definition spec_new :: "time \<Rightarrow> config \<Rightarrow> entry \<Rightarrow> (string \<rightharpoonup> 'a) \<Rightarrow> video \<times> (string \<rightharpoonup> 'a)" where
  "spec_new now cfg e authors = (video_new now cfg e, authors)"

text \<open>
  A video of a bucket is confirmed present by a list of entries when it is the video that
  \<^verbatim>\<open>_parse_metadata_video\<close> updates for one of them: the first video of the bucket that
  carries the id of an entry with formats. A video of the archive is present in a listing
  when the entries of its kind confirm it. \<open>known_refs\<close> are the videos of the three
  buckets.
\<close>

definition confirmed :: "'a world \<Rightarrow> ref list \<Rightarrow> entry list \<Rightarrow> ref \<Rightarrow> bool" where
  "confirmed self bucket entries r \<longleftrightarrow>
     (\<exists>e \<in> set entries. has_formats e
        \<and> find (\<lambda>video. video_id (store self video) = entry_id e) bucket = Some r)"

definition present ::
  "'a world \<Rightarrow> entry list \<Rightarrow> entry list \<Rightarrow> entry list \<Rightarrow> ref \<Rightarrow> bool" where
  "present self video_entries livestream_entries shorts_entries r \<longleftrightarrow>
     confirmed self (videos self) video_entries r
     \<or> confirmed self (livestreams self) livestream_entries r
     \<or> confirmed self (shorts self) shorts_entries r"

definition known_refs :: "'a world \<Rightarrow> ref set" where
  "known_refs self = set (videos self) \<union> set (livestreams self) \<union> set (shorts self)"

text \<open>
  The invariant of the loop over the entries in \<^verbatim>\<open>_parse_metadata\<close>, relative to the
  bucket and the world at its start: the bucket has only grown, by videos created in the
  loop and marked present; the videos that were there keep their id, the confirmed ones
  are marked present and the others are untouched.
\<close>

definition pass_inv :: "ref list \<Rightarrow> 'a world \<Rightarrow> entry list \<Rightarrow> ref list \<times> 'a world \<Rightarrow> bool" where
  "pass_inv bucket self es bw \<longleftrightarrow>
     (case bw of (vids, s) \<Rightarrow>
        (\<exists>news. vids = bucket @ news
           \<and> (\<forall>r \<in> set news. next_ref self \<le> r \<and> r < next_ref s \<and> known_not_deleted (store s r)))
        \<and> next_ref self \<le> next_ref s
        \<and> reporter_deleted s = reporter_deleted self
        \<and> (\<forall>r < next_ref self. video_id (store s r) = video_id (store self r))
        \<and> (\<forall>r < next_ref self.
              (confirmed self bucket es r \<longrightarrow> known_not_deleted (store s r))
              \<and> (\<not> confirmed self bucket es r \<longrightarrow> store s r = store self r)))"

text \<open>
  A world in which no video is marked present, as before the first pass over an archive
  object: two videos that are not deleted and a livestream that is.
\<close>

definition loaded_world :: "nat world" where
  "loaded_world =
     \<lparr>path = ''demo'', version = 4, url = ''https://www.youtube.com/channel/x'',
      videos = [0, 1], livestreams = [2], shorts = [],
      comment_authors = Map.empty, reporter_added = [], reporter_deleted = [],
      store = (\<lambda>r. if r = 0 then example_video ''a'' False False
                    else if r = 1 then example_video ''b'' False False
                    else example_video ''c'' True False),
      next_ref = 3\<rparr>"

subsection \<open>Schema migration (\<^verbatim>\<open>_migrate_archive\<close>)\<close>

text \<open>
  The persisted store is the JSON value that \<^verbatim>\<open>json.load\<close> returns. A Python dict keeps
  its keys in insertion order: a dict is an association list, \<open>dict_set\<close> replaces the
  value of a key where it stands or appends a new key, \<open>dict_del\<close> is \<^verbatim>\<open>del d[k]\<close>.
\<close>

datatype json =
    JNull
  | JBool bool
  | JInt int
  | JStr string
  | JList "json list"
  | JDict "(string \<times> json) list"

type_synonym dict = "(string \<times> json) list"

definition dict_get :: "dict \<Rightarrow> string \<Rightarrow> json option" where
  "dict_get d k = map_of d k"

fun dict_set :: "string \<Rightarrow> json \<Rightarrow> dict \<Rightarrow> dict" where
  "dict_set k v [] = [(k, v)]"
| "dict_set k v ((k', v') # d) = (if k = k' then (k, v) # d else (k', v') # dict_set k v d)"

definition dict_del :: "string \<Rightarrow> dict \<Rightarrow> dict" where
  "dict_del k d = filter (\<lambda>kv. fst kv \<noteq> k) d"

text \<open>
  \<^verbatim>\<open>for video in encoded[bucket]: video[k] = v\<close>. A missing bucket is a \<^verbatim>\<open>KeyError\<close>; a
  video that is no dict, or a bucket that cannot be iterated or whose elements are no
  dicts, is a \<^verbatim>\<open>TypeError\<close>.
\<close>

fun set_item :: "string \<Rightarrow> json \<Rightarrow> json \<Rightarrow> error + json" where
  "set_item k v (JDict d) = Inr (JDict (dict_set k v d))"
| "set_item k v other = Inl TypeError"

fun set_on_all :: "string \<Rightarrow> json \<Rightarrow> json list \<Rightarrow> error + json list" where
  "set_on_all k v [] = Inr []"
| "set_on_all k v (video # rest) =
     (case set_item k v video of
        Inl err \<Rightarrow> Inl err
      | Inr video' \<Rightarrow>
          (case set_on_all k v rest of
             Inl err \<Rightarrow> Inl err
           | Inr rest' \<Rightarrow> Inr (video' # rest')))"

definition set_on_bucket :: "string \<Rightarrow> string \<Rightarrow> json \<Rightarrow> dict \<Rightarrow> error + dict" where
  "set_on_bucket bucket k v encoded =
     (case dict_get encoded bucket of
        None \<Rightarrow> Inl (KeyError bucket)
      | Some (JList vs) \<Rightarrow>
          (case set_on_all k v vs of
             Inl err \<Rightarrow> Inl err
           | Inr vs' \<Rightarrow> Inr (dict_set bucket (JList vs') encoded))
      | Some (JDict d) \<Rightarrow> (if d = [] then Inr encoded else Inl TypeError)
      | Some (JStr s) \<Rightarrow> (if s = [] then Inr encoded else Inl TypeError)
      | Some other \<Rightarrow> Inl TypeError)"

definition set_on_buckets :: "string \<Rightarrow> json \<Rightarrow> dict \<Rightarrow> error + dict" where
  "set_on_buckets k v encoded =
     (case set_on_bucket ''videos'' k v encoded of
        Inl err \<Rightarrow> Inl err
      | Inr e1 \<Rightarrow>
          (case set_on_bucket ''livestreams'' k v e1 of
             Inl err \<Rightarrow> Inl err
           | Inr e2 \<Rightarrow> set_on_bucket ''shorts'' k v e2))"

text \<open>
  The three version-specific edits of \<^verbatim>\<open>migrate_step\<close>. The encoding of a fresh
  \<open>deleted\<close> element, \<^verbatim>\<open>Element.new(Video._new_empty(), False)._to_dict()\<close> of
  \<^verbatim>\<open>yark/video.py\<close>, is the parameter \<open>deleted_element\<close>. The file system is seen through
  \<open>rename_ok\<close>: whether renaming the directory \<^verbatim>\<open>thumbnails\<close> to \<^verbatim>\<open>images\<close> succeeds; when
  it fails the process exits with status 1. The run of \<^verbatim>\<open>Converter\<close> touches the video
  files only and leaves the encoded store as it is.
\<close>

definition migrate_1_to_2 :: "dict \<Rightarrow> error + dict" where
  "migrate_1_to_2 encoded =
     (case dict_get encoded ''id'' of
        None \<Rightarrow> Inl (KeyError ''id'')
      | Some (JStr i) \<Rightarrow>
          Inr (dict_set ''shorts'' (JList [])
                (dict_set ''livestreams'' (JList [])
                  (dict_del ''id''
                    (dict_set ''url'' (JStr (''https://www.youtube.com/channel/'' @ i)) encoded))))
      | Some other \<Rightarrow> Inl TypeError)"

definition migrate_2_to_3 :: "json \<Rightarrow> dict \<Rightarrow> error + dict" where
  "migrate_2_to_3 deleted_element encoded = set_on_buckets ''deleted'' deleted_element encoded"

definition migrate_3_to_4 :: "bool \<Rightarrow> dict \<Rightarrow> error + dict" where
  "migrate_3_to_4 rename_ok encoded =
     (case set_on_buckets ''comments'' (JDict []) (dict_set ''comment_authors'' (JDict []) encoded) of
        Inl err \<Rightarrow> Inl err
      | Inr e \<Rightarrow> if rename_ok then Inr e else Inl (SystemExit 1))"

text \<open>
  \<^verbatim>\<open>migrate_step\<close>: stop when the version is the expected one; otherwise apply the edit of
  the current version (an unknown version exits with status 1), increment the version,
  store it under \<^verbatim>\<open>"version"\<close> and recur. A recursive call is only made after the edit of
  version 1, 2 or 3, which is why the recursion ends.
\<close>

definition set_version :: "int \<Rightarrow> dict \<Rightarrow> dict" where
  "set_version cur encoded = dict_set ''version'' (JInt cur) encoded"

definition migrate_edit :: "json \<Rightarrow> bool \<Rightarrow> int \<Rightarrow> dict \<Rightarrow> error + dict" where
  "migrate_edit deleted_element rename_ok cur encoded =
     (if cur = 1 then migrate_1_to_2 encoded
      else if cur = 2 then migrate_2_to_3 deleted_element encoded
      else if cur = 3 then migrate_3_to_4 rename_ok encoded
      else Inl (SystemExit 1))"

lemma migrate_edit_known:
  "migrate_edit deleted_element rename_ok cur encoded = Inr e \<Longrightarrow> cur = 1 \<or> cur = 2 \<or> cur = 3"
  by (auto simp: migrate_edit_def split: if_splits)

function migrate_step :: "json \<Rightarrow> bool \<Rightarrow> int \<Rightarrow> int \<Rightarrow> dict \<Rightarrow> error + dict" where
  "migrate_step deleted_element rename_ok expected_version cur encoded =
     (if cur = expected_version then Inr encoded
      else
        (case migrate_edit deleted_element rename_ok cur encoded of
           Inl err \<Rightarrow> Inl err
         | Inr e \<Rightarrow> migrate_step deleted_element rename_ok expected_version (cur + 1)
                      (set_version (cur + 1) e)))"
  by pat_completeness auto
termination
proof (relation "measure (\<lambda>(d, r, expected, cur, e). nat (4 - cur))")
  show "wf (measure (\<lambda>(d, r, expected, cur, e). nat (4 - cur)))" by simp
next
  fix deleted_element rename_ok expected_version cur encoded e
  assume "migrate_edit deleted_element rename_ok cur encoded = Inr e"
  then have "cur = 1 \<or> cur = 2 \<or> cur = 3" by (rule migrate_edit_known)
  then show "((deleted_element, rename_ok, expected_version, cur + 1, set_version (cur + 1) e),
              (deleted_element, rename_ok, expected_version, cur, encoded))
         \<in> measure (\<lambda>(d, r, expected, cur, e). nat (4 - cur))"
    by auto
qed

definition ARCHIVE_COMPAT :: int where
  "ARCHIVE_COMPAT = 4"

definition migrate_archive :: "json \<Rightarrow> bool \<Rightarrow> int \<Rightarrow> int \<Rightarrow> dict \<Rightarrow> error + dict" where
  "migrate_archive deleted_element rename_ok current_version expected_version encoded =
     migrate_step deleted_element rename_ok expected_version current_version encoded"

declare migrate_step.simps [simp del]

text \<open>What the two edits of versions 2 and 3 leave on one video, and the test for a dict.\<close>

fun put_item :: "string \<Rightarrow> json \<Rightarrow> json \<Rightarrow> json" where
  "put_item k v (JDict d) = JDict (dict_set k v d)"
| "put_item k v other = other"

fun is_dict :: "json \<Rightarrow> bool" where
  "is_dict (JDict d) = True"
| "is_dict other = False"

definition migrated_video :: "json \<Rightarrow> json \<Rightarrow> json" where
  "migrated_video deleted_element v =
     put_item ''comments'' (JDict []) (put_item ''deleted'' deleted_element v)"

definition example_v1 :: dict where
  "example_v1 =
     [(''version'', JInt 1), (''id'', JStr ''UCabc''),
      (''videos'', JList [JDict [(''id'', JStr ''v1''), (''title'', JDict [(''2022'', JStr ''First'')])],
                        JDict [(''id'', JStr ''v2'')]])]"

subsection \<open>Encoding and decoding (\<^verbatim>\<open>Archive._to_dict\<close>, \<^verbatim>\<open>Archive._from_dict\<close>)\<close>

text \<open>
  The encoded dictionary of a version-4 archive with its mandatory fields; \<open>'ev\<close> is an
  encoded video and \<open>'ea\<close> the encoded head of a comment author. The codecs of videos and
  comment authors belong to \<^verbatim>\<open>yark/video.py\<close> and are parameters. \<^verbatim>\<open>Video._from_dict\<close>
  receives the archive object as it is built up to that statement;
  \<^verbatim>\<open>CommentAuthor._from_dict_head\<close> receives the id and the encoded head (the archive it is
  also handed is the back-reference it keeps). A fresh \<^verbatim>\<open>Reporter\<close> has empty lists. The
  last assignment of \<^verbatim>\<open>Archive._from_dict\<close> sets \<^verbatim>\<open>comment_authors\<close> to the empty dict
  again.
\<close>

record ('ev, 'ea) encoded =
  enc_version :: int
  enc_url :: string
  enc_videos :: "'ev list"
  enc_livestreams :: "'ev list"
  enc_shorts :: "'ev list"
  enc_comment_authors :: "string \<rightharpoonup> 'ea"

definition from_dict ::
  "('ev \<Rightarrow> ('v, 'a) archive \<Rightarrow> 'v) \<Rightarrow> (string \<Rightarrow> 'ea \<Rightarrow> 'a) \<Rightarrow> ('ev, 'ea) encoded \<Rightarrow> string
     \<Rightarrow> ('v, 'a) archive" where
  "from_dict video_from_dict author_from_dict_head encoded p =
     (let a0 = \<lparr>path = p, version = enc_version encoded, url = enc_url encoded,
                videos = [], livestreams = [], shorts = [],
                comment_authors =
                  (\<lambda>i. map_option (author_from_dict_head i) (enc_comment_authors encoded i)),
                reporter_added = [], reporter_deleted = []\<rparr>;
          a1 = a0\<lparr>videos := map (\<lambda>video. video_from_dict video a0) (enc_videos encoded)\<rparr>;
          a2 = a1\<lparr>livestreams :=
                    map (\<lambda>video. video_from_dict video a1) (enc_livestreams encoded)\<rparr>;
          a3 = a2\<lparr>shorts := map (\<lambda>video. video_from_dict video a2) (enc_shorts encoded)\<rparr>
      in a3\<lparr>comment_authors := Map.empty\<rparr>)"

definition to_dict ::
  "('v \<Rightarrow> 'ev) \<Rightarrow> ('a \<Rightarrow> 'ea) \<Rightarrow> ('v, 'a, 'm) archive_scheme \<Rightarrow> ('ev, 'ea) encoded" where
  "to_dict video_to_dict author_to_dict_head self =
     \<lparr>enc_version = version self, enc_url = url self,
      enc_videos = map video_to_dict (videos self),
      enc_livestreams = map video_to_dict (livestreams self),
      enc_shorts = map video_to_dict (shorts self),
      enc_comment_authors = (\<lambda>i. map_option author_to_dict_head (comment_authors self i))\<rparr>"

definition example_archive :: "(string, nat) archive" where
  "example_archive =
     \<lparr>path = ''demo'', version = 4, url = ''https://www.youtube.com/channel/x'',
      videos = [''a'', ''b''], livestreams = [''c''], shorts = [],
      comment_authors = [''author1'' \<mapsto> 7], reporter_added = [], reporter_deleted = []\<rparr>"

subsection \<open>Persisting (\<^verbatim>\<open>Archive.commit\<close>, \<^verbatim>\<open>Archive._backup\<close>)\<close>

text \<open>
  The file system as far as \<^verbatim>\<open>commit\<close> touches it: the contents of the files and the set
  of directories, by path. A path is the string that \<^verbatim>\<open>Path\<close> prints, \<open>join\<close> is \<^verbatim>\<open>/\<close> and
  \<open>parent\<close> is \<^verbatim>\<open>Path.parent\<close>; the current directory is the path \<^verbatim>\<open>.\<close>.
  \<^verbatim>\<open>Path.exists()\<close> holds for a file and for a directory. Creating a directory or opening
  a file for writing raises \<^verbatim>\<open>NotADirectoryError\<close> when the parent is a regular file and
  \<^verbatim>\<open>FileNotFoundError\<close> when the parent is missing (\<open>parent_error\<close>); opening a directory as a
  file raises \<^verbatim>\<open>IsADirectoryError\<close>, and \<^verbatim>\<open>Path.mkdir()\<close> of a path that exists raises
  \<^verbatim>\<open>FileExistsError\<close>. \<open>ensure_dirs\<close> is the loop of \<^verbatim>\<open>commit\<close> over the three
  directories. The clock reading \<^verbatim>\<open>datetime.utcnow().isoformat()\<close> is the parameter
  \<open>now_iso\<close>, and \<^verbatim>\<open>json.dump\<close> is the parameter \<open>dump\<close>.
\<close>

record fs =
  files :: "string \<rightharpoonup> string"
  dirs :: "string set"

definition path_exists :: "fs \<Rightarrow> string \<Rightarrow> bool" where
  "path_exists f p \<longleftrightarrow> p \<in> dom (files f) \<or> p \<in> dirs f"

definition join :: "string \<Rightarrow> string \<Rightarrow> string" where
  "join p name = p @ ''/'' @ name"

definition parent :: "string \<Rightarrow> string" where
  "parent p =
     (let d = rev (dropWhile (\<lambda>c. c \<noteq> CHR ''/'') (rev p))
      in if d = [] then ''.'' else if d = ''/'' then ''/'' else butlast d)"

definition parent_error :: "fs \<Rightarrow> string \<Rightarrow> error option" where
  "parent_error f p =
     (if parent p \<in> dom (files f) then Some (OtherException ''NotADirectoryError'')
      else if parent p \<notin> dirs f then Some (OtherException ''FileNotFoundError'')
      else None)"

definition write_file :: "fs \<Rightarrow> string \<Rightarrow> string \<Rightarrow> error + fs" where
  "write_file f p content =
     (case parent_error f p of
        Some err \<Rightarrow> Inl err
      | None \<Rightarrow>
          if p \<in> dirs f then Inl (OtherException ''IsADirectoryError'')
          else Inr (f\<lparr>files := (files f)(p \<mapsto> content)\<rparr>))"

definition mkdir :: "string \<Rightarrow> fs \<Rightarrow> error + fs" where
  "mkdir p f =
     (case parent_error f p of
        Some err \<Rightarrow> Inl err
      | None \<Rightarrow>
          if path_exists f p then Inl (OtherException ''FileExistsError'')
          else Inr (f\<lparr>dirs := insert p (dirs f)\<rparr>))"

definition backup_header :: "string \<Rightarrow> string" where
  "backup_header now_iso =
     ''// Backup of a Yark archive, dated '' @ now_iso @ [CHR 0x0A]
     @ ''// Remove these comments and rename to 'yark.json' to restore'' @ [CHR 0x0A]"

definition backup_text :: "string \<Rightarrow> string \<Rightarrow> string" where
  "backup_text now_iso content = backup_header now_iso @ content"

definition backup :: "string \<Rightarrow> ('v, 'a, 'm) archive_scheme \<Rightarrow> fs \<Rightarrow> error + fs" where
  "backup now_iso self f =
     (if \<not> path_exists f (join (path self) ''yark.json'') then Inr f
      else
        (case files f (join (path self) ''yark.json'') of
           None \<Rightarrow> Inl (OtherException ''IsADirectoryError'')
         | Some content \<Rightarrow>
             write_file f (join (path self) ''yark.bak'') (backup_text now_iso content)))"

fun ensure_dirs :: "string list \<Rightarrow> fs \<Rightarrow> error + fs" where
  "ensure_dirs [] f = Inr f"
| "ensure_dirs (p # paths) f =
     (if \<not> path_exists f p
      then (case mkdir p f of Inl err \<Rightarrow> Inl err | Inr f' \<Rightarrow> ensure_dirs paths f')
      else ensure_dirs paths f)"

definition commit ::
  "(('ev, 'ea) encoded \<Rightarrow> string) \<Rightarrow> ('v \<Rightarrow> 'ev) \<Rightarrow> ('a \<Rightarrow> 'ea) \<Rightarrow> string
     \<Rightarrow> ('v, 'a, 'm) archive_scheme \<Rightarrow> fs \<Rightarrow> error + fs" where
  "commit dump video_to_dict author_to_dict_head now_iso self f =
     (case backup now_iso self f of
        Inl err \<Rightarrow> Inl err
      | Inr f1 \<Rightarrow>
          (case ensure_dirs [path self, join (path self) ''images'', join (path self) ''videos''] f1 of
             Inl err \<Rightarrow> Inl err
           | Inr f2 \<Rightarrow>
               write_file f2 (join (path self) ''yark.json'')
                 (dump (to_dict video_to_dict author_to_dict_head self))))"

definition example_fs :: fs where
  "example_fs = \<lparr>files = [''demo/yark.json'' \<mapsto> ''{old}''], dirs = {''.'', ''demo''}\<rparr>"

definition empty_fs :: fs where
  "empty_fs = \<lparr>files = Map.empty, dirs = {''.''}\<rparr>"

section \<open>Properties\<close>

subsection \<open>Curation\<close>

lemma map_nth_upt_take: "n \<le> length xs \<Longrightarrow> map (\<lambda>i. xs ! i) [0..<n] = take n xs"
  by (simp add: list_eq_iff_nth_eq)

text \<open>
  C1. With a maximum \<open>m\<close> set, curation of a bucket considers exactly the first
  \<open>min (max (len - 1) 0) m\<close> videos of the bucket, in the bucket's order, and returns those
  of them that are not downloaded, in order. A bucket of ten videos none of which is
  downloaded gives three candidates for the maximum 3, and a bucket of one video gives none
  for the maximum 5.
\<close>

theorem curate_list_prefix:
  "curate_list downloaded bucket (Some m) =
     filter (\<lambda>video. \<not> downloaded video)
       (take (nat (min (max (int (length bucket) - 1) 0) m)) bucket)
   \<and> (length bucket = 10 \<and> (\<forall>video \<in> set bucket. \<not> downloaded video)
        \<longrightarrow> length (curate_list downloaded bucket (Some 3)) = 3)
   \<and> (length bucket = 1 \<longrightarrow> curate_list downloaded bucket (Some 5) = [])"
proof -
  have prefix: "curate_list downloaded xs (Some k) =
      filter (\<lambda>video. \<not> downloaded video)
        (take (nat (min (max (int (length xs) - 1) 0) k)) xs)" for xs :: "'a list" and k
  proof -
    have "nat (min (max (int (length xs) - 1) 0) k) \<le> length xs" by simp
    then show ?thesis by (simp add: map_nth_upt_take)
  qed
  have ten: "length (curate_list downloaded bucket (Some 3)) = 3"
    if "length bucket = 10" and "\<forall>video \<in> set bucket. \<not> downloaded video"
  proof -
    have "\<forall>video \<in> set (take 3 bucket). \<not> downloaded video"
      using that(2) by (meson in_set_takeD)
    then have "filter (\<lambda>video. \<not> downloaded video) (take 3 bucket) = take 3 bucket"
      by simp
    then show ?thesis using that(1) by (simp add: prefix del: curate_list.simps)
  qed
  have one: "curate_list downloaded bucket (Some 5) = []" if "length bucket = 1"
    using that by (simp add: prefix del: curate_list.simps)
  show ?thesis using prefix ten one by blast
qed

theorem curate_list_prefix_witness:
  "length (curate_list (\<lambda>video. False) [0, 1, 2, 3, 4, 5, 6, 7, 8, 9 :: nat] (Some 3)) = 3
   \<and> curate_list (\<lambda>video. False) [7 :: nat] (Some 5) = []
   \<and> curate_list (\<lambda>video. video = 1) [0, 1, 2, 3 :: nat] (Some 7) = [0, 2]"
proof -
  have a: "length (curate_list (\<lambda>video. False) [0, 1, 2, 3, 4, 5, 6, 7, 8, 9 :: nat] (Some 3)) = 3"
    using curate_list_prefix [of "\<lambda>video. False" "[0, 1, 2, 3, 4, 5, 6, 7, 8, 9 :: nat]" 3]
    by simp
  have b: "curate_list (\<lambda>video. False) [7 :: nat] (Some 5) = []"
    using curate_list_prefix [of "\<lambda>video. False" "[7 :: nat]" 5] by simp
  have c: "curate_list (\<lambda>video. video = 1) [0, 1, 2, 3 :: nat] (Some 7) = [0, 2]"
    using curate_list_prefix [of "\<lambda>video. video = 1" "[0, 1, 2, 3 :: nat]" 7] by simp
  show ?thesis using a b c by simp
qed

subsection \<open>Deletion reporting\<close>

lemma current_element_update: "current (element_update now ts data e) = Some data"
  by (simp add: element_update_def current_def)

lemma element_update_same: "current e = Some data \<Longrightarrow> element_update now ts data e = e"
  by (simp add: element_update_def)

lemma unreported_flagged:
  "unreported (self\<lparr>reporter_deleted := rd, store := (store self)(v := flag_deleted now (store self v))\<rparr>) r
     \<longleftrightarrow> unreported self r \<and> r \<noteq> v"
  by (auto simp: unreported_def flag_deleted_def current_element_update)

lemma report_deleted_store:
  "store (report_deleted now bucket self) r =
     (if r \<in> set bucket \<and> unreported self r then flag_deleted now (store self r) else store self r)"
proof (induction bucket arbitrary: self)
  case Nil
  then show ?case by simp
next
  case (Cons v rest)
  show ?case
    by (auto simp: Cons.IH unreported_flagged)
qed

lemma report_deleted_reporter:
  "\<exists>new. reporter_deleted (report_deleted now bucket self) = reporter_deleted self @ new
      \<and> distinct new \<and> set new = {r \<in> set bucket. unreported self r}"
proof (induction bucket arbitrary: self)
  case Nil
  then show ?case by simp
next
  case (Cons v rest)
  show ?case
  proof (cases "unreported self v")
    case True
    define self1 where "self1 = self\<lparr>reporter_deleted := reporter_deleted self @ [v],
                  store := (store self)(v := flag_deleted now (store self v))\<rparr>"
    from Cons.IH[of self1] obtain new where
      n: "reporter_deleted (report_deleted now rest self1) = reporter_deleted self1 @ new"
      "distinct new" "set new = {r \<in> set rest. unreported self1 r}" by blast
    have u: "unreported self1 r \<longleftrightarrow> unreported self r \<and> r \<noteq> v" for r
      unfolding self1_def by (rule unreported_flagged)
    have "reporter_deleted (report_deleted now (v # rest) self) = reporter_deleted self @ (v # new)"
      using True n(1) by (simp add: self1_def)
    moreover have "distinct (v # new)" using n(2,3) u by auto
    moreover have "set (v # new) = {r \<in> set (v # rest). unreported self r}"
      using n(3) u True by auto
    ultimately show ?thesis by blast
  next
    case False
    from Cons.IH[of self] obtain new where
      n: "reporter_deleted (report_deleted now rest self) = reporter_deleted self @ new"
      "distinct new" "set new = {r \<in> set rest. unreported self r}" by blast
    have "set new = {r \<in> set (v # rest). unreported self r}" using n(3) False by auto
    then show ?thesis using False n by auto
  qed
qed

lemma report_deleted_frame:
  "report_deleted now bucket self =
     self\<lparr>reporter_deleted := reporter_deleted (report_deleted now bucket self),
          store := store (report_deleted now bucket self)\<rparr>"
proof (induction bucket arbitrary: self)
  case Nil
  then show ?case by simp
next
  case (Cons v rest)
  show ?case
  proof (cases "unreported self v")
    case True
    then show ?thesis using Cons.IH[of "self\<lparr>reporter_deleted := reporter_deleted self @ [v],
                  store := (store self)(v := flag_deleted now (store self v))\<rparr>"]
      by simp
  next
    case False
    then show ?thesis using Cons.IH[of self] by simp
  qed
qed

lemma report_deleted_none:
  "\<forall>r \<in> set bucket. \<not> unreported self r \<Longrightarrow> report_deleted now bucket self = self"
  by (induction bucket arbitrary: self) auto

lemma distinct_singleton_set:
  assumes "distinct xs" and "set xs = {a}"
  shows "xs = [a]"
proof (cases xs)
  case Nil
  then show ?thesis using assms by simp
next
  case (Cons b list)
  then have "b = a" using assms(2) by auto
  moreover have "set list = {}"
  proof -
    have "a \<notin> set list" using assms(1) Cons \<open>b = a\<close> by simp
    moreover have "set list \<subseteq> {a}" using assms(2) Cons by auto
    ultimately show ?thesis by (cases list) auto
  qed
  ultimately show ?thesis using Cons by simp
qed

lemma report_deleted_exact:
  "reporter_deleted (report_deleted now bucket self) =
     reporter_deleted self @ newly_reported self (report_deleted now bucket self)
   \<and> distinct (newly_reported self (report_deleted now bucket self))
   \<and> set (newly_reported self (report_deleted now bucket self)) =
       {r \<in> set bucket. unreported self r}
   \<and> (\<forall>r. store (report_deleted now bucket self) r =
         (if r \<in> set bucket \<and> unreported self r
          then flag_deleted now (store self r) else store self r))
   \<and> (\<forall>r. current (deleted (flag_deleted now (store self r))) = Some True)
   \<and> (\<forall>r. current (deleted (store self r)) = Some True \<longrightarrow>
         store (report_deleted now bucket self) r = store self r
         \<and> r \<notin> set (newly_reported self (report_deleted now bucket self)))
   \<and> report_deleted later bucket (report_deleted now bucket self) =
       report_deleted now bucket self"
proof -
  let ?s = "report_deleted now bucket self"
  obtain new where new: "reporter_deleted ?s = reporter_deleted self @ new"
    "distinct new" "set new = {r \<in> set bucket. unreported self r}"
    using report_deleted_reporter by blast
  have nr: "newly_reported self ?s = new"
    by (simp add: newly_reported_def new(1))
  have st: "store ?s r =
         (if r \<in> set bucket \<and> unreported self r
          then flag_deleted now (store self r) else store self r)" for r
    by (rule report_deleted_store)
  have fl: "current (deleted (flag_deleted now (store self r))) = Some True" for r
    by (simp add: flag_deleted_def current_element_update)
  have old: "store ?s r = store self r \<and> r \<notin> set (newly_reported self ?s)"
    if "current (deleted (store self r)) = Some True" for r
  proof -
    have "\<not> unreported self r" using that by (simp add: unreported_def)
    then show ?thesis by (simp add: st nr new(3))
  qed
  have "\<not> unreported ?s r" if "r \<in> set bucket" for r
    using that fl [of r] by (auto simp: unreported_def st)
  then have again: "report_deleted later bucket ?s = ?s"
    by (simp add: report_deleted_none)
  show ?thesis using new(1,2,3) nr st fl old again by simp
qed

lemma pass_invI:
  assumes "vids = bucket @ news"
    and "\<forall>r \<in> set news. next_ref self \<le> r \<and> r < next_ref s \<and> known_not_deleted (store s r)"
    and "next_ref self \<le> next_ref s"
    and "reporter_deleted s = reporter_deleted self"
    and "\<forall>r < next_ref self. video_id (store s r) = video_id (store self r)"
    and "\<forall>r < next_ref self.
              (confirmed self bucket es r \<longrightarrow> known_not_deleted (store s r))
              \<and> (\<not> confirmed self bucket es r \<longrightarrow> store s r = store self r)"
  shows "pass_inv bucket self es (vids, s)"
  using assms unfolding pass_inv_def by blast

lemma find_append:
  "find P (xs @ ys) = (case find P xs of None \<Rightarrow> find P ys | Some x \<Rightarrow> Some x)"
  by (induction xs) auto

lemma find_cong_set: "(\<And>x. x \<in> set xs \<Longrightarrow> P x = Q x) \<Longrightarrow> find P xs = find Q xs"
  by (induction xs) auto

lemma find_Some_set: "find P xs = Some x \<Longrightarrow> x \<in> set xs \<and> P x"
  by (induction xs) (auto split: if_splits)

lemma confirmed_snoc:
  "confirmed self bucket (es @ [e]) r \<longleftrightarrow>
     confirmed self bucket es r
     \<or> (has_formats e \<and> find (\<lambda>video. video_id (store self video) = entry_id e) bucket = Some r)"
  by (auto simp: confirmed_def)

lemma pass_inv_step:
  assumes mp: "marks_present upd new"
    and wf: "\<forall>r \<in> set bucket. r < next_ref self"
    and inv: "pass_inv bucket self es (vids, s)"
  shows "pass_inv bucket self (es @ [e]) (parse_metadata_video upd new cfg e (vids, s))"
proof (cases "has_formats e")
  case False
  then have "parse_metadata_video upd new cfg e (vids, s) = (vids, s)"
    by (simp add: parse_metadata_video_def)
  moreover have "confirmed self bucket (es @ [e]) r = confirmed self bucket es r" for r
    using False by (simp add: confirmed_snoc)
  ultimately show ?thesis using inv by (simp add: pass_inv_def)
next
  case hf: True
  from inv obtain news where vids: "vids = bucket @ news"
    and news: "\<forall>r \<in> set news. next_ref self \<le> r \<and> r < next_ref s \<and> known_not_deleted (store s r)"
    and nr: "next_ref self \<le> next_ref s"
    and rd: "reporter_deleted s = reporter_deleted self"
    and ids: "\<forall>r < next_ref self. video_id (store s r) = video_id (store self r)"
    and old: "\<forall>r < next_ref self.
              (confirmed self bucket es r \<longrightarrow> known_not_deleted (store s r))
              \<and> (\<not> confirmed self bucket es r \<longrightarrow> store s r = store self r)"
    by (auto simp: pass_inv_def)
  let ?P = "\<lambda>video. video_id (store s video) = entry_id e"
  let ?Q = "\<lambda>video. video_id (store self video) = entry_id e"
  have fb: "find ?P bucket = find ?Q bucket"
    by (rule find_cong_set) (use wf ids in auto)
  have conf: "confirmed self bucket (es @ [e]) r \<longleftrightarrow>
      confirmed self bucket es r \<or> find ?Q bucket = Some r" for r
    using hf by (simp add: confirmed_snoc)
  show ?thesis
  proof (cases "find ?Q bucket")
    case (Some r0)
    then have r0: "r0 \<in> set bucket" "r0 < next_ref self"
      using find_Some_set [of ?Q bucket r0] wf by auto
    have f: "find ?P vids = Some r0" using Some fb by (simp add: vids find_append)
    obtain v au where u: "upd cfg e (store s r0) (comment_authors s) = (v, au)"
      by (cases "upd cfg e (store s r0) (comment_authors s)") auto
    have v: "known_not_deleted v" "video_id v = video_id (store s r0)"
      using mp u unfolding marks_present_def by (metis fst_conv)+
    have res: "parse_metadata_video upd new cfg e (vids, s) =
        (vids, s\<lparr>comment_authors := au, store := (store s)(r0 := v)\<rparr>)"
      using hf f u by (simp add: parse_metadata_video_def)
    have notnews: "r0 \<notin> set news" using news r0 by auto
    show ?thesis
      unfolding res
    proof (rule pass_invI [where news = news])
      show "vids = bucket @ news" by (rule vids)
      show "\<forall>r \<in> set news. next_ref self \<le> r
          \<and> r < next_ref (s\<lparr>comment_authors := au, store := (store s)(r0 := v)\<rparr>)
          \<and> known_not_deleted (store (s\<lparr>comment_authors := au, store := (store s)(r0 := v)\<rparr>) r)"
        using news notnews by auto
      show "next_ref self \<le> next_ref (s\<lparr>comment_authors := au, store := (store s)(r0 := v)\<rparr>)"
        using nr by simp
      show "reporter_deleted (s\<lparr>comment_authors := au, store := (store s)(r0 := v)\<rparr>)
          = reporter_deleted self"
        using rd by simp
      show "\<forall>r < next_ref self.
          video_id (store (s\<lparr>comment_authors := au, store := (store s)(r0 := v)\<rparr>) r)
          = video_id (store self r)"
        using ids v(2) by simp
      show "\<forall>r < next_ref self.
          (confirmed self bucket (es @ [e]) r \<longrightarrow>
             known_not_deleted (store (s\<lparr>comment_authors := au, store := (store s)(r0 := v)\<rparr>) r))
          \<and> (\<not> confirmed self bucket (es @ [e]) r \<longrightarrow>
             store (s\<lparr>comment_authors := au, store := (store s)(r0 := v)\<rparr>) r = store self r)"
        using old v(1) Some by (auto simp: conf)
    qed
  next
    case None
    then have conf': "confirmed self bucket (es @ [e]) r = confirmed self bucket es r" for r
      by (simp add: conf)
    show ?thesis
    proof (cases "find ?P news")
      case (Some n)
      then have n: "n \<in> set news" using find_Some_set [of ?P news n] by simp
      then have nge: "next_ref self \<le> n" using news by auto
      have f: "find ?P vids = Some n" using None fb Some by (simp add: vids find_append)
      obtain v au where u: "upd cfg e (store s n) (comment_authors s) = (v, au)"
        by (cases "upd cfg e (store s n) (comment_authors s)") auto
      have v: "known_not_deleted v"
        using mp u unfolding marks_present_def by (metis fst_conv)
      have res: "parse_metadata_video upd new cfg e (vids, s) =
          (vids, s\<lparr>comment_authors := au, store := (store s)(n := v)\<rparr>)"
        using hf f u by (simp add: parse_metadata_video_def)
      show ?thesis
        unfolding res
      proof (rule pass_invI [where news = news])
        show "vids = bucket @ news" by (rule vids)
        show "\<forall>r \<in> set news. next_ref self \<le> r
            \<and> r < next_ref (s\<lparr>comment_authors := au, store := (store s)(n := v)\<rparr>)
            \<and> known_not_deleted (store (s\<lparr>comment_authors := au, store := (store s)(n := v)\<rparr>) r)"
          using news v by auto
        show "next_ref self \<le> next_ref (s\<lparr>comment_authors := au, store := (store s)(n := v)\<rparr>)"
          using nr by simp
        show "reporter_deleted (s\<lparr>comment_authors := au, store := (store s)(n := v)\<rparr>)
            = reporter_deleted self"
          using rd by simp
        show "\<forall>r < next_ref self.
            video_id (store (s\<lparr>comment_authors := au, store := (store s)(n := v)\<rparr>) r)
            = video_id (store self r)"
          using ids nge by simp
        show "\<forall>r < next_ref self.
            (confirmed self bucket (es @ [e]) r \<longrightarrow>
               known_not_deleted (store (s\<lparr>comment_authors := au, store := (store s)(n := v)\<rparr>) r))
            \<and> (\<not> confirmed self bucket (es @ [e]) r \<longrightarrow>
               store (s\<lparr>comment_authors := au, store := (store s)(n := v)\<rparr>) r = store self r)"
          using old nge by (auto simp: conf')
      qed
    next
      case nn: None
      have f: "find ?P vids = None" using None fb nn by (simp add: vids find_append)
      obtain v au where u: "new cfg e (comment_authors s) = (v, au)"
        by (cases "new cfg e (comment_authors s)") auto
      have v: "known_not_deleted v"
        using mp u unfolding marks_present_def by (metis fst_conv)
      have res: "parse_metadata_video upd new cfg e (vids, s) =
          (vids @ [next_ref s],
           s\<lparr>comment_authors := au, reporter_added := reporter_added s @ [next_ref s],
             store := (store s)(next_ref s := v), next_ref := Suc (next_ref s)\<rparr>)"
        using hf f u by (simp add: parse_metadata_video_def)
      let ?s' = "s\<lparr>comment_authors := au, reporter_added := reporter_added s @ [next_ref s],
             store := (store s)(next_ref s := v), next_ref := Suc (next_ref s)\<rparr>"
      show ?thesis
        unfolding res
      proof (rule pass_invI [where news = "news @ [next_ref s]"])
        show "vids @ [next_ref s] = bucket @ news @ [next_ref s]" by (simp add: vids)
        show "\<forall>r \<in> set (news @ [next_ref s]). next_ref self \<le> r \<and> r < next_ref ?s'
            \<and> known_not_deleted (store ?s' r)"
          using news nr v by auto
        show "next_ref self \<le> next_ref ?s'" using nr by simp
        show "reporter_deleted ?s' = reporter_deleted self" using rd by simp
        show "\<forall>r < next_ref self. video_id (store ?s' r) = video_id (store self r)"
          using ids nr by simp
        show "\<forall>r < next_ref self.
            (confirmed self bucket (es @ [e]) r \<longrightarrow> known_not_deleted (store ?s' r))
            \<and> (\<not> confirmed self bucket (es @ [e]) r \<longrightarrow> store ?s' r = store self r)"
          using old nr by (auto simp: conf')
      qed
    qed
  qed
qed

lemma pass_inv_fold:
  assumes mp: "marks_present upd new"
    and wf: "\<forall>r \<in> set bucket. r < next_ref self"
  shows "pass_inv bucket self es (fold (parse_metadata_video upd new cfg) es (bucket, self))"
proof (induction es rule: rev_induct)
  case Nil
  show ?case by (simp add: pass_inv_def confirmed_def)
next
  case (snoc e es)
  obtain vids s where f: "fold (parse_metadata_video upd new cfg) es (bucket, self) = (vids, s)"
    by (cases "fold (parse_metadata_video upd new cfg) es (bucket, self)") auto
  show ?case
    using pass_inv_step [OF mp wf, of es vids s e cfg] snoc f by simp
qed

lemma marks_present_spec: "marks_present (spec_update now) (spec_new now')"
  by (simp add: marks_present_def spec_update_def spec_new_def video_update_def video_new_def)

lemma report_deleted_append:
  "report_deleted now (xs @ ys) self = report_deleted now ys (report_deleted now xs self)"
  by (induction xs arbitrary: self) simp_all

lemma confirmed_in: "confirmed s bucket es r \<Longrightarrow> r \<in> set bucket"
  by (auto simp: confirmed_def dest: find_Some_set)

lemma confirmed_cong:
  assumes "\<forall>r \<in> set bucket. video_id (store s r) = video_id (store s' r)"
  shows "confirmed s bucket es r = confirmed s' bucket es r"
proof -
  have "find (\<lambda>video. video_id (store s video) = i) bucket
      = find (\<lambda>video. video_id (store s' video) = i) bucket" for i
    by (rule find_cong_set) (simp add: assms)
  then show ?thesis by (simp add: confirmed_def)
qed

lemma parse_metadata_summary:
  assumes mp: "marks_present upd new"
    and wf: "\<forall>r \<in> set bucket. r < next_ref s0"
    and pm: "parse_metadata upd new cfg es (bucket, s0) = (vids, s1)"
  shows "next_ref s0 \<le> next_ref s1"
    and "reporter_deleted s1 = reporter_deleted s0"
    and "\<forall>r < next_ref s0. video_id (store s1 r) = video_id (store s0 r)"
    and "\<forall>r < next_ref s0. confirmed s0 bucket es r \<longrightarrow> known_not_deleted (store s1 r)"
    and "\<forall>r < next_ref s0. \<not> confirmed s0 bucket es r \<longrightarrow> store s1 r = store s0 r"
    and "\<forall>r \<in> set vids. r \<in> set bucket
           \<or> (next_ref s0 \<le> r \<and> r < next_ref s1 \<and> known_not_deleted (store s1 r))"
    and "set bucket \<subseteq> set vids"
proof -
  obtain vids0 where f: "fold (parse_metadata_video upd new cfg) es (bucket, s0) = (vids0, s1)"
    and v: "vids = sort_newest (store s1) vids0"
    using pm by (cases "fold (parse_metadata_video upd new cfg) es (bucket, s0)")
      (auto simp: parse_metadata_def)
  have sv: "set vids = set vids0" by (simp add: v sort_newest_def)
  have inv: "pass_inv bucket s0 es (vids0, s1)"
    using pass_inv_fold [OF mp wf, of es cfg] f by simp
  then obtain news where vids: "vids0 = bucket @ news"
    and news: "\<forall>r \<in> set news. next_ref s0 \<le> r \<and> r < next_ref s1 \<and> known_not_deleted (store s1 r)"
    and nr: "next_ref s0 \<le> next_ref s1"
    and rd: "reporter_deleted s1 = reporter_deleted s0"
    and ids: "\<forall>r < next_ref s0. video_id (store s1 r) = video_id (store s0 r)"
    and old: "\<forall>r < next_ref s0.
              (confirmed s0 bucket es r \<longrightarrow> known_not_deleted (store s1 r))
              \<and> (\<not> confirmed s0 bucket es r \<longrightarrow> store s1 r = store s0 r)"
    by (auto simp: pass_inv_def)
  show "next_ref s0 \<le> next_ref s1" by (rule nr)
  show "reporter_deleted s1 = reporter_deleted s0" by (rule rd)
  show "\<forall>r < next_ref s0. video_id (store s1 r) = video_id (store s0 r)" by (rule ids)
  show "\<forall>r < next_ref s0. confirmed s0 bucket es r \<longrightarrow> known_not_deleted (store s1 r)"
    using old by blast
  show "\<forall>r < next_ref s0. \<not> confirmed s0 bucket es r \<longrightarrow> store s1 r = store s0 r"
    using old by blast
  show "\<forall>r \<in> set vids. r \<in> set bucket
           \<or> (next_ref s0 \<le> r \<and> r < next_ref s1 \<and> known_not_deleted (store s1 r))"
    using news by (auto simp: sv vids)
  show "set bucket \<subseteq> set vids" by (simp add: sv vids)
qed

lemma ingest_state:
  assumes mp: "marks_present upd new"
    and wf: "\<forall>r \<in> known_refs (self :: 'a world). r < next_ref self"
  shows "\<exists>bucket (s3 :: 'a world).
      reporter_deleted (ingest upd new now cfg ev el es self) =
        reporter_deleted (report_deleted now bucket s3)
      \<and> store (ingest upd new now cfg ev el es self) = store (report_deleted now bucket s3)
      \<and> reporter_deleted s3 = reporter_deleted self
      \<and> known_refs self \<subseteq> set bucket
      \<and> (\<forall>r \<in> set bucket. r \<in> known_refs self \<or> known_not_deleted (store s3 r))
      \<and> (\<forall>r \<in> known_refs self. present self ev el es r \<longrightarrow> known_not_deleted (store s3 r))
      \<and> (\<forall>r \<in> known_refs self. \<not> present self ev el es r \<longrightarrow> store s3 r = store self r)"
proof -
  let ?V = "videos self" and ?L = "livestreams self" and ?S = "shorts self"
  obtain vs s1 where p1: "parse_metadata upd new cfg ev (?V, self) = (vs, s1)"
    by (cases "parse_metadata upd new cfg ev (?V, self)") auto
  obtain ls s2 where p2: "parse_metadata upd new cfg el (?L, s1) = (ls, s2)"
    by (cases "parse_metadata upd new cfg el (?L, s1)") auto
  obtain ss s3 where p3: "parse_metadata upd new cfg es (?S, s2) = (ss, s3)"
    by (cases "parse_metadata upd new cfg es (?S, s2)") auto
  have wfV: "\<forall>r \<in> set ?V. r < next_ref self" and wfL0: "\<forall>r \<in> set ?L. r < next_ref self"
    and wfS0: "\<forall>r \<in> set ?S. r < next_ref self"
    using wf by (auto simp: known_refs_def)
  note a = parse_metadata_summary [OF mp wfV p1]
  have wfL: "\<forall>r \<in> set ?L. r < next_ref s1" using wfL0 a(1) by auto
  note b = parse_metadata_summary [OF mp wfL p2]
  have wfS: "\<forall>r \<in> set ?S. r < next_ref s2" using wfS0 a(1) b(1) by auto
  note c = parse_metadata_summary [OF mp wfS p3]
  have n01: "next_ref self \<le> next_ref s1" by (rule a(1))
  have n12: "next_ref s1 \<le> next_ref s2" by (rule b(1))
  have cL: "confirmed s1 ?L el r = confirmed self ?L el r" for r
    by (rule confirmed_cong) (use a(3) wfL0 in auto)
  have cS: "confirmed s2 ?S es r = confirmed self ?S es r" for r
  proof (rule confirmed_cong, rule ballI)
    fix x assume "x \<in> set ?S"
    then have x: "x < next_ref self" using wfS0 by simp
    then have "x < next_ref s1" using n01 by simp
    then have "video_id (store s2 x) = video_id (store s1 x)" using b(3) by simp
    then show "video_id (store s2 x) = video_id (store self x)" using a(3) x by simp
  qed
  have ing: "ingest upd new now cfg ev el es self =
      (report_deleted now (vs @ ls @ ss) s3)\<lparr>videos := vs, livestreams := ls, shorts := ss\<rparr>"
    by (simp add: ingest_def p1 p2 p3 report_deleted_append)
  have rd: "reporter_deleted s3 = reporter_deleted self"
    by (simp add: a(2) b(2) c(2))
  have sub: "known_refs self \<subseteq> set (vs @ ls @ ss)"
    using a(7) b(7) c(7) by (auto simp: known_refs_def)
  have keep2: "store s2 r = store s1 r" if "next_ref self \<le> r" "r < next_ref s1" for r
  proof -
    have "\<not> r \<in> set ?L" using wfL0 that(1) by (meson leD)
    then have "\<not> confirmed s1 ?L el r" using confirmed_in [of s1 ?L el r] by blast
    then show ?thesis using b(5) that(2) by simp
  qed
  have keep3: "store s3 r = store s2 r" if "next_ref self \<le> r" "r < next_ref s2" for r
  proof -
    have "\<not> r \<in> set ?S" using wfS0 that(1) by (meson leD)
    then have "\<not> confirmed s2 ?S es r" using confirmed_in [of s2 ?S es r] by blast
    then show ?thesis using c(5) that(2) by simp
  qed
  have news: "r \<in> known_refs self \<or> known_not_deleted (store s3 r)"
    if r: "r \<in> set (vs @ ls @ ss)" for r
  proof -
    consider "r \<in> set vs" | "r \<in> set ls" | "r \<in> set ss" using r by auto
    then show ?thesis
    proof cases
      case 1
      then have "r \<in> set ?V
           \<or> (next_ref self \<le> r \<and> r < next_ref s1 \<and> known_not_deleted (store s1 r))"
        using a(6) by blast
      then show ?thesis
      proof
        assume "r \<in> set ?V" then show ?thesis by (simp add: known_refs_def)
      next
        assume h: "next_ref self \<le> r \<and> r < next_ref s1 \<and> known_not_deleted (store s1 r)"
        then have "store s2 r = store s1 r" using keep2 by simp
        moreover have "store s3 r = store s2 r" using keep3 [of r] h n12 by simp
        ultimately show ?thesis using h by simp
      qed
    next
      case 2
      then have "r \<in> set ?L
           \<or> (next_ref s1 \<le> r \<and> r < next_ref s2 \<and> known_not_deleted (store s2 r))"
        using b(6) by blast
      then show ?thesis
      proof
        assume "r \<in> set ?L" then show ?thesis by (simp add: known_refs_def)
      next
        assume h: "next_ref s1 \<le> r \<and> r < next_ref s2 \<and> known_not_deleted (store s2 r)"
        then have "store s3 r = store s2 r" using keep3 [of r] n01 by simp
        then show ?thesis using h by simp
      qed
    next
      case 3
      then have "r \<in> set ?S
           \<or> (next_ref s2 \<le> r \<and> r < next_ref s3 \<and> known_not_deleted (store s3 r))"
        using c(6) by blast
      then show ?thesis by (auto simp: known_refs_def)
    qed
  qed
  have pres: "known_not_deleted (store s3 r)"
    if r: "r \<in> known_refs self" and p: "present self ev el es r" for r
  proof -
    have lt: "r < next_ref self" using wf r by simp
    have lt1: "r < next_ref s1" using lt n01 by simp
    have lt2: "r < next_ref s2" using lt1 n12 by simp
    show ?thesis
    proof (cases "confirmed self ?S es r")
      case True
      then show ?thesis using c(4) lt2 cS by simp
    next
      case nS: False
      then have e3: "store s3 r = store s2 r" using c(5) lt2 cS by simp
      show ?thesis
      proof (cases "confirmed self ?L el r")
        case True
        then show ?thesis using b(4) lt1 cL e3 by simp
      next
        case nL: False
        then have e2: "store s2 r = store s1 r" using b(5) lt1 cL by simp
        have "confirmed self ?V ev r" using p nS nL by (simp add: present_def)
        then show ?thesis using a(4) lt e2 e3 by simp
      qed
    qed
  qed
  have abs: "store s3 r = store self r"
    if r: "r \<in> known_refs self" and p: "\<not> present self ev el es r" for r
  proof -
    have lt: "r < next_ref self" using wf r by simp
    have lt1: "r < next_ref s1" using lt n01 by simp
    have lt2: "r < next_ref s2" using lt1 n12 by simp
    have "store s1 r = store self r" using a(5) lt p by (simp add: present_def)
    moreover have "store s2 r = store s1 r" using b(5) lt1 cL p by (simp add: present_def)
    moreover have "store s3 r = store s2 r" using c(5) lt2 cS p by (simp add: present_def)
    ultimately show ?thesis by simp
  qed
  show ?thesis
  proof (rule exI [of _ "vs @ ls @ ss"], rule exI [of _ s3], intro conjI ballI impI)
    show "reporter_deleted (ingest upd new now cfg ev el es self) =
        reporter_deleted (report_deleted now (vs @ ls @ ss) s3)"
      by (simp add: ing)
    show "store (ingest upd new now cfg ev el es self) = store (report_deleted now (vs @ ls @ ss) s3)"
      by (simp add: ing)
    show "reporter_deleted s3 = reporter_deleted self" by (rule rd)
    show "known_refs self \<subseteq> set (vs @ ls @ ss)" by (rule sub)
    show "r \<in> known_refs self \<or> known_not_deleted (store s3 r)"
      if "r \<in> set (vs @ ls @ ss)" for r using that by (rule news)
    show "known_not_deleted (store s3 r)"
      if "r \<in> known_refs self" "present self ev el es r" for r using that by (rule pres)
    show "store s3 r = store self r"
      if "r \<in> known_refs self" "\<not> present self ev el es r" for r using that by (rule abs)
  qed
qed

lemma ingest_first_pass:
  assumes mp: "marks_present upd new"
    and fresh: "\<forall>r \<in> known_refs (self :: 'a world). \<not> known_not_deleted (store self r)"
    and wf: "\<forall>r \<in> known_refs self. r < next_ref self"
    and ing: "ingest upd new now cfg ev el es self = final"
  shows "reporter_deleted final = reporter_deleted self @ newly_reported self final"
    and "distinct (newly_reported self final)"
    and "set (newly_reported self final) =
           {r \<in> known_refs self. current (deleted (store self r)) = Some False
              \<and> \<not> present self ev el es r}"
    and "\<forall>r \<in> set (newly_reported self final). store final r = flag_deleted now (store self r)"
    and "\<forall>r \<in> known_refs self. \<not> present self ev el es r
           \<and> current (deleted (store self r)) \<noteq> Some False \<longrightarrow> store final r = store self r"
proof -
  obtain bucket and s3 :: "'a world" where
    frd0: "reporter_deleted (ingest upd new now cfg ev el es self) =
        reporter_deleted (report_deleted now bucket s3)"
    and fst0: "store (ingest upd new now cfg ev el es self) = store (report_deleted now bucket s3)"
    and rd: "reporter_deleted s3 = reporter_deleted self"
    and sub: "known_refs self \<subseteq> set bucket"
    and news: "\<forall>r \<in> set bucket. r \<in> known_refs self \<or> known_not_deleted (store s3 r)"
    and pres: "\<forall>r \<in> known_refs self. present self ev el es r \<longrightarrow> known_not_deleted (store s3 r)"
    and abs: "\<forall>r \<in> known_refs self. \<not> present self ev el es r \<longrightarrow> store s3 r = store self r"
    using ingest_state [OF mp wf, of now cfg ev el es] by blast
  have frd: "reporter_deleted final = reporter_deleted (report_deleted now bucket s3)"
    and fst: "store final = store (report_deleted now bucket s3)"
    using frd0 fst0 ing by simp_all
  let ?s = "report_deleted now bucket s3"
  have un: "{r \<in> set bucket. unreported s3 r} =
      {r \<in> known_refs self. current (deleted (store self r)) = Some False
         \<and> \<not> present self ev el es r}" (is "?L = ?R")
  proof
    show "?L \<subseteq> ?R"
    proof
      fix r assume "r \<in> ?L"
      then have r: "r \<in> set bucket" "unreported s3 r" by auto
      then have nk: "\<not> known_not_deleted (store s3 r)" by (simp add: unreported_def)
      then have rb: "r \<in> known_refs self" using r(1) news by auto
      then have nc: "\<not> present self ev el es r" using pres nk by blast
      then have "store s3 r = store self r" using abs rb by blast
      then show "r \<in> ?R" using r(2) rb nc by (simp add: unreported_def)
    qed
    show "?R \<subseteq> ?L"
    proof
      fix r assume "r \<in> ?R"
      then have r: "r \<in> known_refs self" "current (deleted (store self r)) = Some False"
        "\<not> present self ev el es r" by auto
      then have "store s3 r = store self r" using abs by blast
      then have "unreported s3 r" using r fresh by (simp add: unreported_def)
      then show "r \<in> ?L" using r(1) sub by auto
    qed
  qed
  obtain new where new: "reporter_deleted ?s = reporter_deleted s3 @ new" "distinct new"
    "set new = {r \<in> set bucket. unreported s3 r}"
    using report_deleted_reporter [of now bucket s3] by blast
  have nr: "newly_reported self final = new"
    by (simp add: newly_reported_def frd new(1) rd)
  show "reporter_deleted final = reporter_deleted self @ newly_reported self final"
    by (simp add: nr frd new(1) rd)
  show "distinct (newly_reported self final)" by (simp add: nr new(2))
  show "set (newly_reported self final) =
           {r \<in> known_refs self. current (deleted (store self r)) = Some False
              \<and> \<not> present self ev el es r}"
    by (simp only: nr new(3) un)
  show "\<forall>r \<in> set (newly_reported self final). store final r = flag_deleted now (store self r)"
  proof
    fix r assume "r \<in> set (newly_reported self final)"
    then have r: "r \<in> set bucket" "unreported s3 r" "r \<in> known_refs self"
      "\<not> present self ev el es r"
      using nr new(3) un by auto
    then have "store s3 r = store self r" using abs by blast
    then show "store final r = flag_deleted now (store self r)"
      using r(1,2) by (simp add: fst report_deleted_store)
  qed
  show "\<forall>r \<in> known_refs self. \<not> present self ev el es r
           \<and> current (deleted (store self r)) \<noteq> Some False \<longrightarrow> store final r = store self r"
  proof (intro ballI impI)
    fix r assume r: "r \<in> known_refs self" "\<not> present self ev el es r
           \<and> current (deleted (store self r)) \<noteq> Some False"
    then have e: "store s3 r = store self r" using abs by blast
    then have "\<not> unreported s3 r" using r by (simp add: unreported_def)
    then show "store final r = store self r" using e by (simp add: fst report_deleted_store)
  qed
qed

lemma ingest_absent_deleted:
  assumes mp: "marks_present upd new"
    and wf: "\<forall>r \<in> known_refs (self :: 'a world). r < next_ref self"
    and r: "r \<in> known_refs self" "current (deleted (store self r)) = Some True"
      "\<not> present self ev el es r"
  shows "store (ingest upd new now cfg ev el es self) r = store self r"
    and "r \<notin> set (newly_reported self (ingest upd new now cfg ev el es self))"
proof -
  let ?final = "ingest upd new now cfg ev el es self"
  obtain bucket and s3 :: "'a world" where
    frd: "reporter_deleted ?final = reporter_deleted (report_deleted now bucket s3)"
    and fst: "store ?final = store (report_deleted now bucket s3)"
    and rd: "reporter_deleted s3 = reporter_deleted self"
    and abs: "\<forall>r \<in> known_refs self. \<not> present self ev el es r \<longrightarrow> store s3 r = store self r"
    using ingest_state [OF mp wf, of now cfg ev el es] by blast
  have e: "store s3 r = store self r" using abs r by blast
  then have nu: "\<not> unreported s3 r" using r(2) by (simp add: unreported_def)
  then show "store ?final r = store self r" using e by (simp add: fst report_deleted_store)
  obtain new where new: "reporter_deleted (report_deleted now bucket s3) = reporter_deleted s3 @ new"
    "set new = {r \<in> set bucket. unreported s3 r}"
    using report_deleted_reporter [of now bucket s3] by blast
  have "newly_reported self ?final = new"
    by (simp add: newly_reported_def frd new(1) rd)
  then show "r \<notin> set (newly_reported self ?final)" using new(2) nu by simp
qed

text \<open>
  C7 (as amended). Take a pass of \<^verbatim>\<open>Archive.metadata\<close> over the three buckets, with an
  update and a creation of videos that mark the video as present. If no video of the
  archive is marked present when the pass starts, the pass appends to
  \<^verbatim>\<open>reporter.deleted\<close>, each exactly once, the videos of the buckets whose \<open>deleted\<close> is
  currently false and which the listing does not confirm present, and flags exactly those
  deleted by \<^verbatim>\<open>deleted.update(None, True)\<close> (their current \<open>deleted\<close> is then true); a video
  that is absent and whose \<open>deleted\<close> is not false is left as it was. In every pass,
  marked videos or not, a video whose \<open>deleted\<close> is already true and which is absent from
  the listing is neither flagged again nor reported again. The report itself,
  \<^verbatim>\<open>_report_deleted\<close>, goes by the mark and not by the listing: it reports and flags
  exactly the videos of its bucket whose \<open>deleted\<close> is false and which are not marked
  present, and running it again changes nothing.
\<close>

theorem report_deleted_first_pass:
  "(marks_present upd new
      \<and> (\<forall>r \<in> known_refs self. r < next_ref self)
      \<and> (\<forall>r \<in> known_refs self. \<not> known_not_deleted (store self r))
      \<and> ingest upd new now cfg ev el es self = final
    \<longrightarrow> reporter_deleted final = reporter_deleted self @ newly_reported self final
      \<and> distinct (newly_reported self final)
      \<and> set (newly_reported self final) =
           {r \<in> known_refs self. current (deleted (store self r)) = Some False
              \<and> \<not> present self ev el es r}
      \<and> (\<forall>r \<in> set (newly_reported self final).
            store final r = flag_deleted now (store self r)
            \<and> current (deleted (store final r)) = Some True)
      \<and> (\<forall>r \<in> known_refs self. \<not> present self ev el es r
            \<and> current (deleted (store self r)) \<noteq> Some False \<longrightarrow> store final r = store self r))
   \<and> (marks_present upd new
      \<and> (\<forall>r \<in> known_refs self. r < next_ref self)
      \<and> r \<in> known_refs self
      \<and> current (deleted (store self r)) = Some True
      \<and> \<not> present self ev el es r
    \<longrightarrow> store (ingest upd new now cfg ev el es self) r = store self r
      \<and> r \<notin> set (newly_reported self (ingest upd new now cfg ev el es self)))
   \<and> reporter_deleted (report_deleted now vids w) =
       reporter_deleted w @ newly_reported w (report_deleted now vids w)
   \<and> distinct (newly_reported w (report_deleted now vids w))
   \<and> set (newly_reported w (report_deleted now vids w)) =
       {r \<in> set vids. current (deleted (store w r)) = Some False
          \<and> \<not> known_not_deleted (store w r)}
   \<and> (\<forall>r. store (report_deleted now vids w) r =
         (if r \<in> set vids \<and> current (deleted (store w r)) = Some False
             \<and> \<not> known_not_deleted (store w r)
          then flag_deleted now (store w r) else store w r))
   \<and> report_deleted later vids (report_deleted now vids w) = report_deleted now vids w"
proof -
  have first: "reporter_deleted final = reporter_deleted self @ newly_reported self final
      \<and> distinct (newly_reported self final)
      \<and> set (newly_reported self final) =
           {r \<in> known_refs self. current (deleted (store self r)) = Some False
              \<and> \<not> present self ev el es r}
      \<and> (\<forall>r \<in> set (newly_reported self final).
            store final r = flag_deleted now (store self r)
            \<and> current (deleted (store final r)) = Some True)
      \<and> (\<forall>r \<in> known_refs self. \<not> present self ev el es r
            \<and> current (deleted (store self r)) \<noteq> Some False \<longrightarrow> store final r = store self r)"
    if h: "marks_present upd new" "\<forall>r \<in> known_refs self. r < next_ref self"
      "\<forall>r \<in> known_refs self. \<not> known_not_deleted (store self r)"
      "ingest upd new now cfg ev el es self = final"
  proof -
    note p = ingest_first_pass [OF h(1) h(3) h(2) h(4)]
    have "\<forall>r \<in> set (newly_reported self final).
            store final r = flag_deleted now (store self r)
            \<and> current (deleted (store final r)) = Some True"
      using p(4) by (simp add: flag_deleted_def current_element_update)
    then show ?thesis using p(1,2,3,5) by blast
  qed
  have second: "store (ingest upd new now cfg ev el es self) r = store self r
      \<and> r \<notin> set (newly_reported self (ingest upd new now cfg ev el es self))"
    if h: "marks_present upd new" "\<forall>r \<in> known_refs self. r < next_ref self"
      "r \<in> known_refs self" "current (deleted (store self r)) = Some True"
      "\<not> present self ev el es r"
    using ingest_absent_deleted [OF h] by simp
  note g = report_deleted_exact [of now vids w later]
  have g1: "reporter_deleted (report_deleted now vids w) =
       reporter_deleted w @ newly_reported w (report_deleted now vids w)"
    and g2: "distinct (newly_reported w (report_deleted now vids w))"
    and g3: "set (newly_reported w (report_deleted now vids w)) =
       {r \<in> set vids. current (deleted (store w r)) = Some False
          \<and> \<not> known_not_deleted (store w r)}"
    and g4: "\<forall>r. store (report_deleted now vids w) r =
         (if r \<in> set vids \<and> current (deleted (store w r)) = Some False
             \<and> \<not> known_not_deleted (store w r)
          then flag_deleted now (store w r) else store w r)"
    and g6: "report_deleted later vids (report_deleted now vids w) = report_deleted now vids w"
    using g by (simp_all add: unreported_def)
  have a: "marks_present upd new
      \<and> (\<forall>r \<in> known_refs self. r < next_ref self)
      \<and> (\<forall>r \<in> known_refs self. \<not> known_not_deleted (store self r))
      \<and> ingest upd new now cfg ev el es self = final
    \<longrightarrow> reporter_deleted final = reporter_deleted self @ newly_reported self final
      \<and> distinct (newly_reported self final)
      \<and> set (newly_reported self final) =
           {r \<in> known_refs self. current (deleted (store self r)) = Some False
              \<and> \<not> present self ev el es r}
      \<and> (\<forall>r \<in> set (newly_reported self final).
            store final r = flag_deleted now (store self r)
            \<and> current (deleted (store final r)) = Some True)
      \<and> (\<forall>r \<in> known_refs self. \<not> present self ev el es r
            \<and> current (deleted (store self r)) \<noteq> Some False \<longrightarrow> store final r = store self r)"
    using first by blast
  have b: "marks_present upd new
      \<and> (\<forall>r \<in> known_refs self. r < next_ref self)
      \<and> r \<in> known_refs self
      \<and> current (deleted (store self r)) = Some True
      \<and> \<not> present self ev el es r
    \<longrightarrow> store (ingest upd new now cfg ev el es self) r = store self r
      \<and> r \<notin> set (newly_reported self (ingest upd new now cfg ev el es self))"
    using second by blast
  show ?thesis
    by (rule conjI [OF a conjI [OF b conjI [OF g1 conjI [OF g2 conjI [OF g3 conjI [OF g4 g6]]]]]])
qed

text \<open>
  The theorem on a first pass whose listing holds video \<^verbatim>\<open>a\<close> only: video \<^verbatim>\<open>b\<close> is
  reported and flagged, the livestream \<^verbatim>\<open>c\<close>, deleted already, is left alone.
\<close>

theorem report_deleted_first_pass_witness:
  "marks_present (spec_update 5)
     (spec_new 5 :: config \<Rightarrow> entry \<Rightarrow> (string \<rightharpoonup> nat) \<Rightarrow> video \<times> (string \<rightharpoonup> nat))
   \<and> known_refs loaded_world = {0, 1, 2}
   \<and> next_ref loaded_world = 3
   \<and> \<not> known_not_deleted (store loaded_world 0)
   \<and> \<not> known_not_deleted (store loaded_world 1)
   \<and> \<not> known_not_deleted (store loaded_world 2)
   \<and> present loaded_world [example_entry ''a'' ''t''] [] [] 0
   \<and> \<not> present loaded_world [example_entry ''a'' ''t''] [] [] 1
   \<and> \<not> present loaded_world [example_entry ''a'' ''t''] [] [] 2
   \<and> current (deleted (store loaded_world 1)) = Some False
   \<and> current (deleted (store loaded_world 2)) = Some True
   \<and> reporter_deleted (ingest (spec_update 5) (spec_new 5) 5 example_config
        [example_entry ''a'' ''t''] [] [] loaded_world) = [1]
   \<and> deleted (store (ingest (spec_update 5) (spec_new 5) 5 example_config
        [example_entry ''a'' ''t''] [] [] loaded_world) 1) = [(0, False), (5, True)]
   \<and> store (ingest (spec_update 5) (spec_new 5) 5 example_config
        [example_entry ''a'' ''t''] [] [] loaded_world) 2 = store loaded_world 2
   \<and> 2 \<notin> set (newly_reported loaded_world (ingest (spec_update 5) (spec_new 5) 5 example_config
        [example_entry ''a'' ''t''] [] [] loaded_world))
   \<and> set (newly_reported example_world (report_deleted 5 [0, 1, 2] example_world)) = {0}
   \<and> report_deleted 9 [0, 1, 2] (report_deleted 5 [0, 1, 2] example_world) =
       report_deleted 5 [0, 1, 2] example_world"
proof -
  let ?E = "[example_entry ''a'' ''t'']"
  let ?f = "ingest (spec_update 5) (spec_new 5) 5 example_config ?E [] [] loaded_world"
  have mk: "marks_present (spec_update 5) (spec_new 5 :: config \<Rightarrow> entry \<Rightarrow> (string \<rightharpoonup> nat) \<Rightarrow> _)"
    by (rule marks_present_spec)
  have kr: "known_refs loaded_world = {0, 1, 2}"
    by (auto simp: known_refs_def loaded_world_def)
  have nx: "next_ref loaded_world = 3" by (simp add: loaded_world_def)
  have k0: "\<not> known_not_deleted (store loaded_world 0)"
    and k1: "\<not> known_not_deleted (store loaded_world 1)"
    and k2: "\<not> known_not_deleted (store loaded_world 2)"
    by (simp_all add: loaded_world_def example_video_def)
  have p0: "present loaded_world ?E [] [] 0"
    and p1: "\<not> present loaded_world ?E [] [] 1"
    and p2: "\<not> present loaded_world ?E [] [] 2"
    by (simp_all add: present_def confirmed_def loaded_world_def example_video_def
        example_entry_def has_formats_def)
  have d0: "current (deleted (store loaded_world 0)) = Some False"
    and d1: "current (deleted (store loaded_world 1)) = Some False"
    and d2: "current (deleted (store loaded_world 2)) = Some True"
    by (simp_all add: loaded_world_def example_video_def current_def)
  have r0: "reporter_deleted loaded_world = []" by (simp add: loaded_world_def)
  have wf: "\<forall>r \<in> known_refs loaded_world. r < next_ref loaded_world"
    by (simp add: kr nx)
  have fresh: "\<forall>r \<in> known_refs loaded_world. \<not> known_not_deleted (store loaded_world r)"
    using k0 k1 k2 by (simp add: kr)
  note t = report_deleted_first_pass [where upd = "spec_update 5" and new = "spec_new 5"
      and self = loaded_world and now = 5 and cfg = example_config and ev = ?E and el = "[]"
      and es = "[]" and final = ?f and r = 2 and vids = "[0, 1, 2]" and w = example_world
      and later = 9]
  have in2: "2 \<in> known_refs loaded_world" by (simp add: kr)
  note t1 = t [THEN conjunct1, THEN mp, OF conjI [OF mk conjI [OF wf conjI [OF fresh refl]]]]
  note t2 = t [THEN conjunct2, THEN conjunct1, THEN mp,
      OF conjI [OF mk conjI [OF wf conjI [OF in2 conjI [OF d2 p2]]]]]
  note t3 = t [THEN conjunct2, THEN conjunct2]
  have a: "reporter_deleted ?f = reporter_deleted loaded_world @ newly_reported loaded_world ?f"
    using t1 by (rule conjunct1)
  have b: "distinct (newly_reported loaded_world ?f)"
    using t1 [THEN conjunct2] by (rule conjunct1)
  have c: "set (newly_reported loaded_world ?f) =
           {r \<in> known_refs loaded_world. current (deleted (store loaded_world r)) = Some False
              \<and> \<not> present loaded_world ?E [] [] r}"
    using t1 [THEN conjunct2, THEN conjunct2] by (rule conjunct1)
  have d: "\<forall>r \<in> set (newly_reported loaded_world ?f).
            store ?f r = flag_deleted 5 (store loaded_world r)
            \<and> current (deleted (store ?f r)) = Some True"
    using t1 [THEN conjunct2, THEN conjunct2, THEN conjunct2] by (rule conjunct1)
  have e: "store ?f 2 = store loaded_world 2"
    using t2 by (rule conjunct1)
  have e': "2 \<notin> set (newly_reported loaded_world ?f)"
    using t2 by (rule conjunct2)
  have g3: "set (newly_reported example_world (report_deleted 5 [0, 1, 2] example_world)) =
       {r \<in> set [0, 1, 2]. current (deleted (store example_world r)) = Some False
          \<and> \<not> known_not_deleted (store example_world r)}"
    using t3 [THEN conjunct2, THEN conjunct2] by (rule conjunct1)
  have g6: "report_deleted 9 [0, 1, 2] (report_deleted 5 [0, 1, 2] example_world) =
       report_deleted 5 [0, 1, 2] example_world"
    using t3 [THEN conjunct2, THEN conjunct2, THEN conjunct2] by (rule conjunct2)
  have s: "{r \<in> known_refs loaded_world. current (deleted (store loaded_world r)) = Some False
              \<and> \<not> present loaded_world ?E [] [] r} = {1}"
    using p0 p1 p2 d0 d1 d2 by (auto simp: kr)
  have "set (newly_reported loaded_world ?f) = {1}" using c s by simp
  then have n: "newly_reported loaded_world ?f = [1]"
    using b by (rule distinct_singleton_set [rotated])
  have x: "reporter_deleted ?f = [1]" using a n r0 by simp
  have "store ?f 1 = flag_deleted 5 (store loaded_world 1)" using d n by simp
  then have y: "deleted (store ?f 1) = [(0, False), (5, True)]"
    by (simp add: flag_deleted_def element_update_def current_def loaded_world_def
        example_video_def)
  have s': "{r \<in> set [0, 1, 2]. current (deleted (store example_world r)) = Some False
          \<and> \<not> known_not_deleted (store example_world r)} = {0::nat}"
    by (auto simp: example_world_def example_video_def current_def)
  have z: "set (newly_reported example_world (report_deleted 5 [0, 1, 2] example_world)) = {0}"
    using g3 s' by simp
  show ?thesis
    by (intro conjI) (rule mk kr nx k0 k1 k2 p0 p1 p2 d1 d2 x y e e' z g6)+
qed

text \<open>
  Without the condition on the marks the pass misses a deletion. Video \<^verbatim>\<open>a\<close> is
  confirmed present by a first pass and absent from the listing of a second pass over the
  same archive object; its \<open>deleted\<close> is false and its mark is still set, so the second
  pass neither reports nor flags it.
\<close>

theorem ingest_second_pass_misses_absent:
  "0 \<in> known_refs (ingest (spec_update 5) (spec_new 5) 5 example_config
        [example_entry ''a'' ''t''] [] [] loaded_world)
   \<and> \<not> present (ingest (spec_update 5) (spec_new 5) 5 example_config
        [example_entry ''a'' ''t''] [] [] loaded_world) [] [] [] 0
   \<and> current (deleted (store (ingest (spec_update 5) (spec_new 5) 5 example_config
        [example_entry ''a'' ''t''] [] [] loaded_world) 0)) = Some False
   \<and> known_not_deleted (store (ingest (spec_update 5) (spec_new 5) 5 example_config
        [example_entry ''a'' ''t''] [] [] loaded_world) 0)
   \<and> newly_reported
        (ingest (spec_update 5) (spec_new 5) 5 example_config
           [example_entry ''a'' ''t''] [] [] loaded_world)
        (ingest (spec_update 9) (spec_new 9) 9 example_config [] [] []
           (ingest (spec_update 5) (spec_new 5) 5 example_config
              [example_entry ''a'' ''t''] [] [] loaded_world)) = []
   \<and> current (deleted (store
        (ingest (spec_update 9) (spec_new 9) 9 example_config [] [] []
           (ingest (spec_update 5) (spec_new 5) 5 example_config
              [example_entry ''a'' ''t''] [] [] loaded_world)) 0)) = Some False"
  by code_simp

subsection \<open>Lookup\<close>

lemma search_loop_None: "search_loop id_of vids i = None \<longleftrightarrow> i \<notin> id_of ` set vids"
  by (induction vids) auto

lemma search_loop_Some:
  "search_loop id_of vids i = Some v \<Longrightarrow> v \<in> set vids \<and> id_of v = i"
  by (induction vids) (auto split: if_splits)

lemma search_videos_only:
  "(\<exists>v. search id_of self i = Inr v \<and> v \<in> set (videos self) \<and> id_of v = i)
     \<longleftrightarrow> i \<in> id_of ` set (videos self)"
  unfolding search_def
  using search_loop_None [of id_of "videos self" i] search_loop_Some [of id_of "videos self" i]
  by (cases "search_loop id_of (videos self) i") auto

text \<open>
  C9. The lookup is meant to find a video of the archive by its id in any of the three
  buckets. \<^verbatim>\<open>Archive.search\<close> walks \<^verbatim>\<open>self.videos\<close> only: for the id of a video that is in
  the livestream bucket it raises \<^verbatim>\<open>VideoNotFoundException\<close>.
\<close>

theorem search_misses_livestream:
  "1 \<in> set (livestreams example_world_live)
   \<and> video_id (store example_world_live 1) = ''b''
   \<and> search (\<lambda>r. video_id (store example_world_live r)) example_world_live ''b'' =
       Inl (VideoNotFoundException ''Couldn't find b inside archive'')"
  by (simp add: search_def example_world_live_def example_video_def)

subsection \<open>Download failures\<close>

lemma starts_with_iff: "starts_with sub s \<longleftrightarrow> (\<exists>post. s = sub @ post)"
  by (induction sub s rule: starts_with.induct) auto

lemma contains_iff: "contains sub s \<longleftrightarrow> (\<exists>pre post. s = pre @ sub @ post)"
proof (induction s)
  case Nil
  then show ?case by auto
next
  case (Cons c cs)
  show ?case
  proof
    assume "contains sub (c # cs)"
    then consider "starts_with sub (c # cs)" | "contains sub cs" by auto
    then show "\<exists>pre post. c # cs = pre @ sub @ post"
    proof cases
      case 1
      then obtain post where "c # cs = sub @ post" using starts_with_iff by blast
      then have "c # cs = [] @ sub @ post" by simp
      then show ?thesis by blast
    next
      case 2
      then obtain pre post where "cs = pre @ sub @ post" using Cons.IH by blast
      then have "c # cs = (c # pre) @ sub @ post" by simp
      then show ?thesis by blast
    qed
  next
    assume "\<exists>pre post. c # cs = pre @ sub @ post"
    then obtain pre post where e: "c # cs = pre @ sub @ post" by blast
    show "contains sub (c # cs)"
    proof (cases pre)
      case Nil
      then have "starts_with sub (c # cs)" using e starts_with_iff by auto
      then show ?thesis by simp
    next
      case (Cons p pre')
      then have "cs = pre' @ sub @ post" using e by simp
      then have "contains sub cs" using Cons.IH by blast
      then show ?thesis by simp
    qed
  qed
qed

lemma skip_video_loop_found:
  assumes "\<exists>v \<in> set rest. \<not> downloaded v"
  shows "skip_video_loop downloaded id_of reason warning vids ind rest =
     Inr (drop (ind + length (takeWhile downloaded rest) + 1) vids,
          rest ! length (takeWhile downloaded rest),
          skip_notice warning (id_of (rest ! length (takeWhile downloaded rest))) reason)"
  using assms
  by (induction rest arbitrary: ind) (auto simp: skip_notice_def)

lemma skip_video_loop_none:
  "\<forall>v \<in> set rest. downloaded v \<Longrightarrow>
     skip_video_loop downloaded id_of reason warning vids ind rest = Inl SkipNothingFound"
  by (induction rest arbitrary: ind) auto

lemma skip_video_found:
  assumes "\<exists>v \<in> set vids. \<not> downloaded v"
  shows "skip_video downloaded id_of vids reason warning =
     Inr (drop (Suc (length (takeWhile downloaded vids))) vids,
          vids ! length (takeWhile downloaded vids),
          skip_notice warning (id_of (vids ! length (takeWhile downloaded vids))) reason)"
  unfolding skip_video_def using skip_video_loop_found [OF assms, of id_of reason warning vids 0]
  by simp

lemma skip_video_none:
  "\<forall>v \<in> set vids. downloaded v \<Longrightarrow>
     skip_video downloaded id_of vids reason warning = Inl SkipNothingFound"
  unfolding skip_video_def by (rule skip_video_loop_none)

lemma remove_first_undownloaded_eq:
  "remove_first_undownloaded downloaded vids =
     takeWhile downloaded vids @ drop (Suc (length (takeWhile downloaded vids))) vids"
  by (induction vids) auto

lemma takeWhile_shorter:
  "\<exists>v \<in> set xs. \<not> P v \<Longrightarrow> length (takeWhile P xs) < length xs"
  by (induction xs) auto

lemma takeWhile_prefix_holds: "\<forall>v \<in> set (take (length (takeWhile P xs)) xs). P v"
  by (induction xs) auto

lemma private_msg: "private_or_removed ''ERROR: [youtube] b: Private video. Sign in''"
  by (simp add: private_or_removed_def)

lemma bytes_msg: "\<not> private_or_removed ''Downloaded 10 bytes, expected 20 bytes''
    \<and> bytes_mismatch ''Downloaded 10 bytes, expected 20 bytes''"
  by (simp add: private_or_removed_def bytes_mismatch_def)

lemma other_msg: "\<not> private_or_removed ''HTTP Error 404: Not Found''
    \<and> \<not> bytes_mismatch ''HTTP Error 404: Not Found''"
  by (simp add: private_or_removed_def bytes_mismatch_def)

text \<open>
  C5 (as amended). When the remaining list holds a video that is not downloaded, a
  download error whose message contains "Private video" or "This video has been removed by
  the uploader" makes the handler return the part of the list after the first video that
  is not downloaded (that video and every downloaded video before it are dropped, so the
  list shrinks), mark that video deleted and record it in \<^verbatim>\<open>reporter.deleted\<close> only if its
  \<open>deleted\<close> is currently false, and print a skip line to standard output; a message that
  contains " bytes, expected " instead gives the same shortened list with the world
  unchanged and a warning line on standard error. Every other download error is raised
  again with its message unchanged.
\<close>

theorem dl_exception_handle_classifies:
  "(let i = length (takeWhile downloaded nd); target = nd ! i in
     ((\<exists>v \<in> set nd. \<not> downloaded v) \<longrightarrow>
        \<not> downloaded target \<and> i < length nd \<and> (\<forall>v \<in> set (take i nd). downloaded v)
        \<and> length (drop (Suc i) nd) < length nd
        \<and> (private_or_removed msg \<longrightarrow>
             dl_exception_handle now downloaded nd msg self =
               Inr (Some (drop (Suc i) nd),
                    (if current (deleted (store self target)) = Some False
                     then self\<lparr>reporter_deleted := reporter_deleted self @ [target],
                               store := (store self)(target := flag_deleted now (store self target))\<rparr>
                     else self),
                    [skip_notice False (video_id (store self target)) ''deleted'']))
        \<and> (\<not> private_or_removed msg \<and> bytes_mismatch msg \<longrightarrow>
             dl_exception_handle now downloaded nd msg self =
               Inr (Some (drop (Suc i) nd), self,
                    [skip_notice True (video_id (store self target))
                       ''no format found; please download ffmpeg!''])))
     \<and> (\<not> private_or_removed msg \<and> \<not> bytes_mismatch msg \<longrightarrow>
          dl_exception_handle now downloaded nd msg self = Inl (DownloadError msg)))"
proof -
  define i where "i = length (takeWhile downloaded nd)"
  define target where "target = nd ! i"
  have other: "dl_exception_handle now downloaded nd msg self = Inl (DownloadError msg)"
    if "\<not> private_or_removed msg" "\<not> bytes_mismatch msg"
    using that by (simp add: dl_exception_handle_def private_or_removed_def bytes_mismatch_def)
  have found: "\<not> downloaded target \<and> i < length nd \<and> (\<forall>v \<in> set (take i nd). downloaded v)
        \<and> length (drop (Suc i) nd) < length nd
        \<and> (private_or_removed msg \<longrightarrow>
             dl_exception_handle now downloaded nd msg self =
               Inr (Some (drop (Suc i) nd),
                    (if current (deleted (store self target)) = Some False
                     then self\<lparr>reporter_deleted := reporter_deleted self @ [target],
                               store := (store self)(target := flag_deleted now (store self target))\<rparr>
                     else self),
                    [skip_notice False (video_id (store self target)) ''deleted'']))
        \<and> (\<not> private_or_removed msg \<and> bytes_mismatch msg \<longrightarrow>
             dl_exception_handle now downloaded nd msg self =
               Inr (Some (drop (Suc i) nd), self,
                    [skip_notice True (video_id (store self target))
                       ''no format found; please download ffmpeg!'']))"
    if ex: "\<exists>v \<in> set nd. \<not> downloaded v"
  proof -
    have lt: "i < length nd"
      unfolding i_def using ex by (rule takeWhile_shorter)
    have nd_t: "\<not> downloaded target"
      unfolding target_def i_def using lt i_def nth_length_takeWhile by blast
    have pre: "\<forall>v \<in> set (take i nd). downloaded v"
      unfolding i_def by (rule takeWhile_prefix_holds)
    have shr: "length (drop (Suc i) nd) < length nd" using lt by simp
    have sk: "skip_video downloaded id_of nd reason warning =
        Inr (drop (Suc i) nd, target, skip_notice warning (id_of target) reason)"
      for id_of reason warning
      unfolding i_def target_def by (rule skip_video_found [OF ex])
    have a: "dl_exception_handle now downloaded nd msg self =
               Inr (Some (drop (Suc i) nd),
                    (if current (deleted (store self target)) = Some False
                     then self\<lparr>reporter_deleted := reporter_deleted self @ [target],
                               store := (store self)(target := flag_deleted now (store self target))\<rparr>
                     else self),
                    [skip_notice False (video_id (store self target)) ''deleted''])"
      if "private_or_removed msg"
      using that unfolding dl_exception_handle_def private_or_removed_def
      by (simp add: sk)
    have b: "dl_exception_handle now downloaded nd msg self =
               Inr (Some (drop (Suc i) nd), self,
                    [skip_notice True (video_id (store self target))
                       ''no format found; please download ffmpeg!''])"
      if "\<not> private_or_removed msg" "bytes_mismatch msg"
      using that unfolding dl_exception_handle_def private_or_removed_def bytes_mismatch_def
      by (simp add: sk)
    show ?thesis using lt nd_t pre shr a b by blast
  qed
  show ?thesis
    unfolding Let_def i_def [symmetric] target_def [symmetric]
    using found other by blast
qed

theorem dl_exception_handle_classifies_witness:
  "dl_exception_handle 5 (\<lambda>r. r = 0) [0, 1, 2]
       ''ERROR: [youtube] b: Private video. Sign in'' example_world =
     Inr (Some [2],
          example_world\<lparr>reporter_deleted := [1],
            store := (store example_world)(1 := flag_deleted 5 (store example_world 1))\<rparr>,
          [(Stdout, ''Skipping b (deleted)'')])
   \<and> dl_exception_handle 5 (\<lambda>r. r = 0) [0, 1, 2]
       ''Downloaded 10 bytes, expected 20 bytes'' example_world =
     Inr (Some [2], example_world,
          [(Stderr, ''Skipping b (no format found; please download ffmpeg!)'')])
   \<and> dl_exception_handle 5 (\<lambda>r. r = 0) [0, 1, 2]
       ''HTTP Error 404: Not Found'' example_world =
     Inl (DownloadError ''HTTP Error 404: Not Found'')"
proof -
  have ex: "\<exists>v \<in> set [0, 1, 2::nat]. \<not> (\<lambda>r. r = 0) v" by simp
  have i: "length (takeWhile (\<lambda>r. r = 0) [0, 1, 2::nat]) = 1" by simp
  have cur: "current (deleted (store example_world (Suc 0))) = Some False"
    by (simp add: example_world_def example_video_def current_def)
  have vid: "video_id (store example_world (Suc 0)) = ''b''"
    by (simp add: example_world_def example_video_def)
  have rd: "reporter_deleted example_world = []"
    by (simp add: example_world_def)
  have a: "dl_exception_handle 5 (\<lambda>r. r = 0) [0, 1, 2]
       ''ERROR: [youtube] b: Private video. Sign in'' example_world =
     Inr (Some [2],
          example_world\<lparr>reporter_deleted := [1],
            store := (store example_world)(1 := flag_deleted 5 (store example_world 1))\<rparr>,
          [(Stdout, ''Skipping b (deleted)'')])"
    using dl_exception_handle_classifies [of "\<lambda>r. r = 0" "[0, 1, 2]"
        "''ERROR: [youtube] b: Private video. Sign in''" 5 example_world]
      ex private_msg
    by (simp only: Let_def i) (simp add: cur vid rd skip_notice_def)
  have b: "dl_exception_handle 5 (\<lambda>r. r = 0) [0, 1, 2]
       ''Downloaded 10 bytes, expected 20 bytes'' example_world =
     Inr (Some [2], example_world,
          [(Stderr, ''Skipping b (no format found; please download ffmpeg!)'')])"
    using dl_exception_handle_classifies [of "\<lambda>r. r = 0" "[0, 1, 2]"
        "''Downloaded 10 bytes, expected 20 bytes''" 5 example_world]
      ex bytes_msg
    by (simp only: Let_def i) (simp add: vid skip_notice_def)
  have c: "dl_exception_handle 5 (\<lambda>r. r = 0) [0, 1, 2]
       ''HTTP Error 404: Not Found'' example_world =
     Inl (DownloadError ''HTTP Error 404: Not Found'')"
    using dl_exception_handle_classifies [of "\<lambda>r. r = 0" "[0, 1, 2]"
        "''HTTP Error 404: Not Found''" 5 example_world]
      other_msg
    by (simp only: Let_def) blast
  show ?thesis using a b c by blast
qed

text \<open>
  C5 as stated fails: with a downloaded video in front of the first video that is not
  downloaded, the handler returns \<open>[2]\<close> for the list \<open>[0, 1, 2]\<close>, whereas taking the first
  video that is not downloaded out of the list gives \<open>[0, 2]\<close>.
\<close>

theorem dl_exception_handle_drops_downloaded_prefix:
  "map_sum id fst (dl_exception_handle 5 (\<lambda>r. r = 0) [0, 1, 2]
       ''ERROR: [youtube] b: Private video. Sign in'' example_world) = Inr (Some [2])
   \<and> remove_first_undownloaded (\<lambda>r. r = 0) [0, 1, 2::nat] = [0, 2]"
  by (simp add: dl_exception_handle_def skip_video_def)

subsection \<open>Merge or create\<close>

text \<open>
  C8. Merge-or-create over one entry of a snapshot: an entry without a non-empty format
  list is skipped, bucket and archive stay as they are; otherwise, when some video of the
  bucket has the id of the entry, the first such video is updated in place and the bucket
  list and \<^verbatim>\<open>reporter.added\<close> are unchanged; otherwise exactly one new video is appended
  to the bucket and to \<^verbatim>\<open>reporter.added\<close>. A video is found exactly when the id of the
  entry is the id of a video in the bucket.
\<close>

theorem parse_metadata_video_cases:
  "(\<not> has_formats e \<longrightarrow> parse_metadata_video upd new cfg e (bucket, self) = (bucket, self))
   \<and> (has_formats e \<longrightarrow>
        (\<forall>video. find (\<lambda>video. video_id (store self video) = entry_id e) bucket = Some video \<longrightarrow>
           parse_metadata_video upd new cfg e (bucket, self) =
             (bucket,
              self\<lparr>comment_authors := snd (upd cfg e (store self video) (comment_authors self)),
                   store := (store self)
                     (video := fst (upd cfg e (store self video) (comment_authors self)))\<rparr>))
        \<and> (entry_id e \<notin> (\<lambda>video. video_id (store self video)) ` set bucket \<longrightarrow>
           parse_metadata_video upd new cfg e (bucket, self) =
             (bucket @ [next_ref self],
              self\<lparr>comment_authors := snd (new cfg e (comment_authors self)),
                   reporter_added := reporter_added self @ [next_ref self],
                   store := (store self)(next_ref self := fst (new cfg e (comment_authors self))),
                   next_ref := Suc (next_ref self)\<rparr>)))
   \<and> (find (\<lambda>video. video_id (store self video) = entry_id e) bucket = None
        \<longleftrightarrow> entry_id e \<notin> (\<lambda>video. video_id (store self video)) ` set bucket)"
proof -
  let ?P = "\<lambda>video. video_id (store self video) = entry_id e"
  have none: "find ?P bucket = None
        \<longleftrightarrow> entry_id e \<notin> (\<lambda>video. video_id (store self video)) ` set bucket"
    unfolding find_None_iff by force
  have skip: "parse_metadata_video upd new cfg e (bucket, self) = (bucket, self)"
    if "\<not> has_formats e"
    using that by (simp add: parse_metadata_video_def)
  have upd: "parse_metadata_video upd new cfg e (bucket, self) =
             (bucket,
              self\<lparr>comment_authors := snd (upd cfg e (store self video) (comment_authors self)),
                   store := (store self)
                     (video := fst (upd cfg e (store self video) (comment_authors self)))\<rparr>)"
    if "has_formats e" "find ?P bucket = Some video" for video
    using that by (simp add: parse_metadata_video_def split: prod.splits)
  have new: "parse_metadata_video upd new cfg e (bucket, self) =
             (bucket @ [next_ref self],
              self\<lparr>comment_authors := snd (new cfg e (comment_authors self)),
                   reporter_added := reporter_added self @ [next_ref self],
                   store := (store self)(next_ref self := fst (new cfg e (comment_authors self))),
                   next_ref := Suc (next_ref self)\<rparr>)"
    if "has_formats e" "entry_id e \<notin> (\<lambda>video. video_id (store self video)) ` set bucket"
    using that none by (simp add: parse_metadata_video_def split: prod.splits)
  show ?thesis using none skip upd new by blast
qed

theorem parse_metadata_video_cases_witness:
  "parse_metadata_video (\<lambda>cfg e v au. (video_update 7 cfg e v, au))
       (\<lambda>cfg e au. (video_new 7 cfg e, au)) example_config
       ((example_entry ''a'' ''T'')\<lparr>formats := Some []\<rparr>) ([0, 1, 2], example_world) =
     ([0, 1, 2], example_world)
   \<and> fst (parse_metadata_video (\<lambda>cfg e v au. (video_update 7 cfg e v, au))
       (\<lambda>cfg e au. (video_new 7 cfg e, au)) example_config
       (example_entry ''a'' ''T'') ([0, 1, 2], example_world)) = [0, 1, 2]
   \<and> title (store (snd (parse_metadata_video (\<lambda>cfg e v au. (video_update 7 cfg e v, au))
       (\<lambda>cfg e au. (video_new 7 cfg e, au)) example_config
       (example_entry ''a'' ''T'') ([0, 1, 2], example_world))) 0) = [(0, ''t''), (7, ''T'')]
   \<and> reporter_added (snd (parse_metadata_video (\<lambda>cfg e v au. (video_update 7 cfg e v, au))
       (\<lambda>cfg e au. (video_new 7 cfg e, au)) example_config
       (example_entry ''a'' ''T'') ([0, 1, 2], example_world))) = []
   \<and> fst (parse_metadata_video (\<lambda>cfg e v au. (video_update 7 cfg e v, au))
       (\<lambda>cfg e au. (video_new 7 cfg e, au)) example_config
       (example_entry ''z'' ''T'') ([0, 1, 2], example_world)) = [0, 1, 2, 3]
   \<and> reporter_added (snd (parse_metadata_video (\<lambda>cfg e v au. (video_update 7 cfg e v, au))
       (\<lambda>cfg e au. (video_new 7 cfg e, au)) example_config
       (example_entry ''z'' ''T'') ([0, 1, 2], example_world))) = [3]"
proof -
  let ?U = "\<lambda>cfg e v au. (video_update 7 cfg e v, au :: string \<rightharpoonup> nat)"
  let ?N = "\<lambda>cfg e au. (video_new 7 cfg e, au :: string \<rightharpoonup> nat)"
  have nf: "\<not> has_formats ((example_entry ''a'' ''T'')\<lparr>formats := Some []\<rparr>)"
    by (simp add: has_formats_def)
  have hf: "has_formats (example_entry i t)" for i t
    by (simp add: has_formats_def example_entry_def)
  have fa: "find (\<lambda>video. video_id (store example_world video) = entry_id (example_entry ''a'' ''T''))
      [0, 1, 2] = Some 0"
    by (simp add: example_world_def example_video_def example_entry_def)
  have fz: "entry_id (example_entry ''z'' ''T'')
      \<notin> (\<lambda>video. video_id (store example_world video)) ` set [0, 1, 2]"
    by (simp add: example_world_def example_video_def example_entry_def)
  have a: "parse_metadata_video ?U ?N example_config
       ((example_entry ''a'' ''T'')\<lparr>formats := Some []\<rparr>) ([0, 1, 2], example_world) =
     ([0, 1, 2], example_world)"
    using parse_metadata_video_cases [of "(example_entry ''a'' ''T'')\<lparr>formats := Some []\<rparr>"
        ?U ?N example_config "[0, 1, 2]" example_world] nf
    by blast
  have b: "parse_metadata_video ?U ?N example_config (example_entry ''a'' ''T'')
             ([0, 1, 2], example_world) =
           ([0, 1, 2],
            example_world\<lparr>comment_authors := comment_authors example_world,
              store := (store example_world)
                (0 := video_update 7 example_config (example_entry ''a'' ''T'')
                        (store example_world 0))\<rparr>)"
    using parse_metadata_video_cases [of "example_entry ''a'' ''T''"
        ?U ?N example_config "[0, 1, 2]" example_world] hf fa
    by simp
  have c: "parse_metadata_video ?U ?N example_config (example_entry ''z'' ''T'')
             ([0, 1, 2], example_world) =
           ([0, 1, 2] @ [next_ref example_world],
            example_world\<lparr>comment_authors := comment_authors example_world,
              reporter_added := reporter_added example_world @ [next_ref example_world],
              store := (store example_world)
                (next_ref example_world := video_new 7 example_config (example_entry ''z'' ''T'')),
              next_ref := Suc (next_ref example_world)\<rparr>)"
    using parse_metadata_video_cases [of "example_entry ''z'' ''T''"
        ?U ?N example_config "[0, 1, 2]" example_world] hf fz
    by simp
  have t: "title (video_update 7 example_config (example_entry ''a'' ''T'') (store example_world 0))
      = [(0, ''t''), (7, ''T'')]"
    by (simp add: video_update_def element_update_def current_def example_world_def
        example_video_def example_entry_def)
  have n: "next_ref example_world = 3" "reporter_added example_world = []"
    by (simp_all add: example_world_def)
  show ?thesis
    unfolding a b c by (simp add: t n)
qed

subsection \<open>Schema migration\<close>

lemma dict_get_set: "dict_get (dict_set k v d) k' = (if k' = k then Some v else dict_get d k')"
  by (induction d) (auto simp: dict_get_def)

lemma dict_get_del: "dict_get (dict_del k d) k' = (if k' = k then None else dict_get d k')"
  by (induction d) (auto simp: dict_get_def dict_del_def)

lemma set_on_all_dicts:
  "\<forall>v \<in> set vs. is_dict v \<Longrightarrow> set_on_all k x vs = Inr (map (put_item k x) vs)"
proof (induction vs)
  case Nil
  then show ?case by simp
next
  case (Cons v vs)
  then obtain d where "v = JDict d" by (cases v) auto
  then show ?case using Cons by simp
qed

lemma is_dict_put_item: "is_dict (put_item k x v) = is_dict v"
  by (cases v) auto

lemma set_on_bucket_list:
  assumes "dict_get encoded bucket = Some (JList vs)" and "\<forall>v \<in> set vs. is_dict v"
  shows "set_on_bucket bucket k x encoded =
           Inr (dict_set bucket (JList (map (put_item k x) vs)) encoded)"
  using assms by (simp add: set_on_bucket_def set_on_all_dicts)

lemma set_on_buckets_lists:
  assumes "dict_get encoded ''videos'' = Some (JList vs)" and "\<forall>v \<in> set vs. is_dict v"
    and "dict_get encoded ''livestreams'' = Some (JList ls)" and "\<forall>v \<in> set ls. is_dict v"
    and "dict_get encoded ''shorts'' = Some (JList ss)" and "\<forall>v \<in> set ss. is_dict v"
  shows "set_on_buckets k x encoded =
           Inr (dict_set ''shorts'' (JList (map (put_item k x) ss))
                 (dict_set ''livestreams'' (JList (map (put_item k x) ls))
                   (dict_set ''videos'' (JList (map (put_item k x) vs)) encoded)))"
proof -
  let ?e1 = "dict_set ''videos'' (JList (map (put_item k x) vs)) encoded"
  let ?e2 = "dict_set ''livestreams'' (JList (map (put_item k x) ls)) ?e1"
  have 1: "set_on_bucket ''videos'' k x encoded = Inr ?e1"
    using assms(1,2) by (rule set_on_bucket_list)
  have "dict_get ?e1 ''livestreams'' = Some (JList ls)"
    using assms(3) by (simp add: dict_get_set)
  then have 2: "set_on_bucket ''livestreams'' k x ?e1 = Inr ?e2"
    using assms(4) by (rule set_on_bucket_list)
  have "dict_get ?e2 ''shorts'' = Some (JList ss)"
    using assms(5) by (simp add: dict_get_set)
  then have 3: "set_on_bucket ''shorts'' k x ?e2 =
      Inr (dict_set ''shorts'' (JList (map (put_item k x) ss)) ?e2)"
    using assms(6) by (rule set_on_bucket_list)
  show ?thesis by (simp add: set_on_buckets_def 1 2 3)
qed

lemma migrate_step_done: "migrate_step de r v v encoded = Inr encoded"
  by (simp add: migrate_step.simps [of de r v v encoded])

lemma migrate_step_next:
  "cur \<noteq> expected \<Longrightarrow> migrate_step de r expected cur encoded =
     (case migrate_edit de r cur encoded of
        Inl err \<Rightarrow> Inl err
      | Inr e \<Rightarrow> migrate_step de r expected (cur + 1) (set_version (cur + 1) e))"
  by (simp add: migrate_step.simps [of de r expected cur encoded])

lemma migrate_step_unknown:
  assumes "cur \<noteq> expected" and "cur \<noteq> 1" and "cur \<noteq> 2" and "cur \<noteq> 3"
  shows "migrate_step de r expected cur encoded = Inl (SystemExit 1)"
  using assms by (simp add: migrate_step.simps [of de r expected cur encoded] migrate_edit_def)

lemma migrate_step_success_version:
  "migrate_step de r expected cur encoded = Inr out \<Longrightarrow> cur \<noteq> expected \<Longrightarrow>
     1 \<le> cur \<and> cur < expected \<and> expected \<le> 4 \<and> dict_get out ''version'' = Some (JInt expected)"
proof (induction de r expected cur encoded rule: migrate_step.induct)
  case (1 de r expected cur encoded)
  from "1.prems" obtain e where e: "migrate_edit de r cur encoded = Inr e"
    and rec: "migrate_step de r expected (cur + 1) (set_version (cur + 1) e) = Inr out"
    by (auto simp: migrate_step.simps [of de r expected cur encoded] split: sum.splits)
  have known: "cur = 1 \<or> cur = 2 \<or> cur = 3" using e by (rule migrate_edit_known)
  show ?case
  proof (cases "cur + 1 = expected")
    case True
    then have "out = set_version (cur + 1) e"
      using rec migrate_step_done [of de r expected "set_version expected e"] by simp
    then show ?thesis using True known by (auto simp: set_version_def dict_get_set)
  next
    case False
    then have "1 \<le> cur + 1 \<and> cur + 1 < expected \<and> expected \<le> 4
        \<and> dict_get out ''version'' = Some (JInt expected)"
      using "1.IH" [OF "1.prems"(2) e rec] by simp
    then show ?thesis using known by auto
  qed
qed

lemma migrated_video_fields:
  assumes "is_dict v"
  shows "\<exists>d. migrated_video de v = JDict d \<and> dict_get d ''deleted'' = Some de
           \<and> dict_get d ''comments'' = Some (JDict [])"
proof -
  obtain d0 where "v = JDict d0" using assms by (cases v) auto
  then show ?thesis by (simp add: migrated_video_def dict_get_set)
qed

lemma migrate_v1:
  assumes id: "dict_get encoded ''id'' = Some (JStr cid)"
    and vs: "dict_get encoded ''videos'' = Some (JList vs)"
    and dicts: "\<forall>v \<in> set vs. is_dict v"
  shows "\<exists>out. migrate_step de True 4 1 encoded = Inr out
      \<and> dict_get out ''version'' = Some (JInt 4)
      \<and> dict_get out ''url'' = Some (JStr (''https://www.youtube.com/channel/'' @ cid))
      \<and> dict_get out ''id'' = None
      \<and> dict_get out ''livestreams'' = Some (JList [])
      \<and> dict_get out ''shorts'' = Some (JList [])
      \<and> dict_get out ''comment_authors'' = Some (JDict [])
      \<and> dict_get out ''videos'' = Some (JList (map (migrated_video de) vs))"
    and "migrate_step de False 4 1 encoded = Inl (SystemExit 1)"
proof -
  define E1 where "E1 = set_version 2 (dict_set ''shorts'' (JList [])
                (dict_set ''livestreams'' (JList [])
                  (dict_del ''id''
                    (dict_set ''url'' (JStr (''https://www.youtube.com/channel/'' @ cid)) encoded))))"
  have s1: "migrate_edit de r 1 encoded = Inr (dict_set ''shorts'' (JList [])
                (dict_set ''livestreams'' (JList [])
                  (dict_del ''id''
                    (dict_set ''url'' (JStr (''https://www.youtube.com/channel/'' @ cid)) encoded))))"
    for r
    using id by (simp add: migrate_edit_def migrate_1_to_2_def)
  have g1: "dict_get E1 ''videos'' = Some (JList vs)"
    "dict_get E1 ''livestreams'' = Some (JList [])"
    "dict_get E1 ''shorts'' = Some (JList [])"
    "dict_get E1 ''url'' = Some (JStr (''https://www.youtube.com/channel/'' @ cid))"
    "dict_get E1 ''id'' = None"
    using vs by (simp_all add: E1_def set_version_def dict_get_set dict_get_del)
  define E2 where "E2 = set_version 3 (dict_set ''shorts'' (JList (map (put_item ''deleted'' de) []))
                 (dict_set ''livestreams'' (JList (map (put_item ''deleted'' de) []))
                   (dict_set ''videos'' (JList (map (put_item ''deleted'' de) vs)) E1)))"
  have s2: "migrate_edit de r 2 E1 = Inr (dict_set ''shorts'' (JList (map (put_item ''deleted'' de) []))
                 (dict_set ''livestreams'' (JList (map (put_item ''deleted'' de) []))
                   (dict_set ''videos'' (JList (map (put_item ''deleted'' de) vs)) E1)))" for r
    unfolding migrate_edit_def migrate_2_to_3_def
    using set_on_buckets_lists [OF g1(1) dicts g1(2) _ g1(3), of "''deleted''" de] by simp
  have g2: "dict_get E2 ''videos'' = Some (JList (map (put_item ''deleted'' de) vs))"
    "dict_get E2 ''livestreams'' = Some (JList [])"
    "dict_get E2 ''shorts'' = Some (JList [])"
    "dict_get E2 ''url'' = Some (JStr (''https://www.youtube.com/channel/'' @ cid))"
    "dict_get E2 ''id'' = None"
    using g1 by (simp_all add: E2_def set_version_def dict_get_set)
  define E2a where "E2a = dict_set ''comment_authors'' (JDict []) E2"
  have g2a: "dict_get E2a ''videos'' = Some (JList (map (put_item ''deleted'' de) vs))"
    "dict_get E2a ''livestreams'' = Some (JList [])"
    "dict_get E2a ''shorts'' = Some (JList [])"
    "dict_get E2a ''url'' = Some (JStr (''https://www.youtube.com/channel/'' @ cid))"
    "dict_get E2a ''id'' = None"
    "dict_get E2a ''comment_authors'' = Some (JDict [])"
    using g2 by (simp_all add: E2a_def dict_get_set)
  have dicts2: "\<forall>v \<in> set (map (put_item ''deleted'' de) vs). is_dict v"
    using dicts by (simp add: is_dict_put_item)
  define E3 where "E3 = dict_set ''shorts'' (JList (map (put_item ''comments'' (JDict [])) []))
                 (dict_set ''livestreams'' (JList (map (put_item ''comments'' (JDict [])) []))
                   (dict_set ''videos''
                      (JList (map (put_item ''comments'' (JDict []))
                                (map (put_item ''deleted'' de) vs))) E2a))"
  have sb: "set_on_buckets ''comments'' (JDict []) E2a = Inr E3"
    unfolding E3_def
    using set_on_buckets_lists [OF g2a(1) dicts2 g2a(2) _ g2a(3), of "''comments''" "JDict []"]
    by simp
  have s3: "migrate_edit de True 3 E2 = Inr E3"
    by (simp add: migrate_edit_def migrate_3_to_4_def E2a_def [symmetric] sb)
  have s3f: "migrate_edit de False 3 E2 = Inl (SystemExit 1)"
    by (simp add: migrate_edit_def migrate_3_to_4_def E2a_def [symmetric] sb)
  have chain: "migrate_step de r 4 1 encoded = migrate_step de r 4 3 E2" for r
  proof -
    have "migrate_step de r 4 1 encoded = migrate_step de r 4 2 E1"
      using migrate_step_next [of 1 4 de r encoded] by (simp add: s1 E1_def)
    also have "\<dots> = migrate_step de r 4 3 E2"
      using migrate_step_next [of 2 4 de r E1] by (simp add: s2 E2_def)
    finally show ?thesis .
  qed
  have ok: "migrate_step de True 4 1 encoded = Inr (set_version 4 E3)"
    using migrate_step_next [of 3 4 de True E2] migrate_step_done [of de True 4 "set_version 4 E3"]
    by (simp add: chain s3)
  have g3: "dict_get (set_version 4 E3) ''version'' = Some (JInt 4)"
    "dict_get (set_version 4 E3) ''url'' = Some (JStr (''https://www.youtube.com/channel/'' @ cid))"
    "dict_get (set_version 4 E3) ''id'' = None"
    "dict_get (set_version 4 E3) ''livestreams'' = Some (JList [])"
    "dict_get (set_version 4 E3) ''shorts'' = Some (JList [])"
    "dict_get (set_version 4 E3) ''comment_authors'' = Some (JDict [])"
    "dict_get (set_version 4 E3) ''videos'' = Some (JList (map (migrated_video de) vs))"
    using g2a by (simp_all add: E3_def set_version_def dict_get_set migrated_video_def)
  show "\<exists>out. migrate_step de True 4 1 encoded = Inr out
      \<and> dict_get out ''version'' = Some (JInt 4)
      \<and> dict_get out ''url'' = Some (JStr (''https://www.youtube.com/channel/'' @ cid))
      \<and> dict_get out ''id'' = None
      \<and> dict_get out ''livestreams'' = Some (JList [])
      \<and> dict_get out ''shorts'' = Some (JList [])
      \<and> dict_get out ''comment_authors'' = Some (JDict [])
      \<and> dict_get out ''videos'' = Some (JList (map (migrated_video de) vs))"
    using ok g3 by blast
  show "migrate_step de False 4 1 encoded = Inl (SystemExit 1)"
    using migrate_step_next [of 3 4 de False E2] by (simp add: chain s3f)
qed

text \<open>
  C3. Migration moves the schema version one step at a time: while the version differs
  from the expected one, the edit of the current version is applied and the run continues
  at version \<open>v + 1\<close>, which is stored in the encoded data; a run that returns from another
  version than the expected one started at a version from 1 below the expected one and
  returns a store whose version is the expected one. A version-1 store (with a string
  \<^verbatim>\<open>"id"\<close> and a list of video dicts), when the thumbnails directory can be renamed, ends
  at version 4 with \<^verbatim>\<open>"url"\<close> derived from the old \<^verbatim>\<open>"id"\<close>, which is removed, empty
  \<^verbatim>\<open>"livestreams"\<close> and \<^verbatim>\<open>"shorts"\<close> lists, an empty \<^verbatim>\<open>"comment_authors"\<close> registry and,
  on every video, a \<^verbatim>\<open>"deleted"\<close> element and an empty \<^verbatim>\<open>"comments"\<close> map; when the
  directory cannot be renamed the process exits. For every version other than 1, 2, 3 and
  the compatibility constant 4 (such as 99) migration exits with status 1 and returns no
  store.
\<close>

theorem migrate_archive_stepwise:
  "(cur \<noteq> expected \<longrightarrow>
      migrate_archive de r cur expected encoded =
        (case migrate_edit de r cur encoded of
           Inl err \<Rightarrow> Inl err
         | Inr e \<Rightarrow> migrate_archive de r (cur + 1) expected (set_version (cur + 1) e)))
   \<and> (\<forall>out. cur \<noteq> expected \<and> migrate_archive de r cur expected encoded = Inr out \<longrightarrow>
         1 \<le> cur \<and> cur < expected \<and> expected \<le> 4
         \<and> dict_get out ''version'' = Some (JInt expected))
   \<and> (dict_get encoded ''id'' = Some (JStr cid) \<and> dict_get encoded ''videos'' = Some (JList vs)
        \<and> (\<forall>v \<in> set vs. is_dict v) \<longrightarrow>
        (\<exists>out. migrate_archive de True 1 ARCHIVE_COMPAT encoded = Inr out
           \<and> dict_get out ''version'' = Some (JInt 4)
           \<and> dict_get out ''url'' = Some (JStr (''https://www.youtube.com/channel/'' @ cid))
           \<and> dict_get out ''id'' = None
           \<and> dict_get out ''livestreams'' = Some (JList [])
           \<and> dict_get out ''shorts'' = Some (JList [])
           \<and> dict_get out ''comment_authors'' = Some (JDict [])
           \<and> dict_get out ''videos'' = Some (JList (map (migrated_video de) vs)))
        \<and> (\<forall>v \<in> set vs. \<exists>d. migrated_video de v = JDict d
              \<and> dict_get d ''deleted'' = Some de \<and> dict_get d ''comments'' = Some (JDict []))
        \<and> migrate_archive de False 1 ARCHIVE_COMPAT encoded = Inl (SystemExit 1))
   \<and> (cur \<noteq> 1 \<and> cur \<noteq> 2 \<and> cur \<noteq> 3 \<and> cur \<noteq> ARCHIVE_COMPAT \<longrightarrow>
        migrate_archive de r cur ARCHIVE_COMPAT encoded = Inl (SystemExit 1))"
proof -
  have a: "migrate_archive de r cur expected encoded =
        (case migrate_edit de r cur encoded of
           Inl err \<Rightarrow> Inl err
         | Inr e \<Rightarrow> migrate_archive de r (cur + 1) expected (set_version (cur + 1) e))"
    if "cur \<noteq> expected"
    unfolding migrate_archive_def using that by (rule migrate_step_next)
  have b: "1 \<le> cur \<and> cur < expected \<and> expected \<le> 4
         \<and> dict_get out ''version'' = Some (JInt expected)"
    if "cur \<noteq> expected" "migrate_archive de r cur expected encoded = Inr out" for out
    using that migrate_step_success_version [of de r expected cur encoded out]
    by (simp add: migrate_archive_def)
  have c: "(\<exists>out. migrate_archive de True 1 ARCHIVE_COMPAT encoded = Inr out
           \<and> dict_get out ''version'' = Some (JInt 4)
           \<and> dict_get out ''url'' = Some (JStr (''https://www.youtube.com/channel/'' @ cid))
           \<and> dict_get out ''id'' = None
           \<and> dict_get out ''livestreams'' = Some (JList [])
           \<and> dict_get out ''shorts'' = Some (JList [])
           \<and> dict_get out ''comment_authors'' = Some (JDict [])
           \<and> dict_get out ''videos'' = Some (JList (map (migrated_video de) vs)))
        \<and> (\<forall>v \<in> set vs. \<exists>d. migrated_video de v = JDict d
              \<and> dict_get d ''deleted'' = Some de \<and> dict_get d ''comments'' = Some (JDict []))
        \<and> migrate_archive de False 1 ARCHIVE_COMPAT encoded = Inl (SystemExit 1)"
    if h: "dict_get encoded ''id'' = Some (JStr cid)" "dict_get encoded ''videos'' = Some (JList vs)"
      "\<forall>v \<in> set vs. is_dict v"
    unfolding migrate_archive_def ARCHIVE_COMPAT_def
    using migrate_v1 [OF h, of de] migrated_video_fields [of _ de] h(3) by blast
  have d: "migrate_archive de r cur ARCHIVE_COMPAT encoded = Inl (SystemExit 1)"
    if "cur \<noteq> 1" "cur \<noteq> 2" "cur \<noteq> 3" "cur \<noteq> ARCHIVE_COMPAT"
    unfolding migrate_archive_def using that by (simp add: migrate_step_unknown)
  show ?thesis using a b c d by blast
qed

theorem migrate_archive_stepwise_witness:
  "(\<exists>out. migrate_archive (JDict [(''2023'', JBool False)]) True 1 ARCHIVE_COMPAT example_v1 = Inr out
      \<and> dict_get out ''version'' = Some (JInt 4)
      \<and> dict_get out ''url'' = Some (JStr ''https://www.youtube.com/channel/UCabc'')
      \<and> dict_get out ''id'' = None
      \<and> dict_get out ''livestreams'' = Some (JList [])
      \<and> dict_get out ''shorts'' = Some (JList [])
      \<and> dict_get out ''comment_authors'' = Some (JDict [])
      \<and> dict_get out ''videos'' = Some (JList
           [JDict [(''id'', JStr ''v1''), (''title'', JDict [(''2022'', JStr ''First'')]),
                   (''deleted'', JDict [(''2023'', JBool False)]), (''comments'', JDict [])],
            JDict [(''id'', JStr ''v2''), (''deleted'', JDict [(''2023'', JBool False)]),
                   (''comments'', JDict [])]]))
   \<and> migrate_archive (JDict [(''2023'', JBool False)]) True 99 ARCHIVE_COMPAT example_v1 =
       Inl (SystemExit 1)"
proof -
  let ?de = "JDict [(''2023'', JBool False)]"
  let ?vs = "[JDict [(''id'', JStr ''v1''), (''title'', JDict [(''2022'', JStr ''First'')])],
              JDict [(''id'', JStr ''v2'')]]"
  have h: "dict_get example_v1 ''id'' = Some (JStr ''UCabc'')"
    "dict_get example_v1 ''videos'' = Some (JList ?vs)"
    "\<forall>v \<in> set ?vs. is_dict v"
    by (simp_all add: example_v1_def dict_get_def)
  have u: "(99::int) \<noteq> 1 \<and> (99::int) \<noteq> 2 \<and> (99::int) \<noteq> 3 \<and> 99 \<noteq> ARCHIVE_COMPAT"
    by (simp add: ARCHIVE_COMPAT_def)
  have m: "map (migrated_video ?de) ?vs =
           [JDict [(''id'', JStr ''v1''), (''title'', JDict [(''2022'', JStr ''First'')]),
                   (''deleted'', JDict [(''2023'', JBool False)]), (''comments'', JDict [])],
            JDict [(''id'', JStr ''v2''), (''deleted'', JDict [(''2023'', JBool False)]),
                   (''comments'', JDict [])]]"
    by (simp add: migrated_video_def)
  note t = migrate_archive_stepwise [of 99 ARCHIVE_COMPAT ?de True example_v1 "''UCabc''" ?vs]
  have 1: "migrate_archive ?de True 99 ARCHIVE_COMPAT example_v1 = Inl (SystemExit 1)"
    using t u by blast
  have 2: "\<exists>out. migrate_archive ?de True 1 ARCHIVE_COMPAT example_v1 = Inr out
           \<and> dict_get out ''version'' = Some (JInt 4)
           \<and> dict_get out ''url'' = Some (JStr (''https://www.youtube.com/channel/'' @ ''UCabc''))
           \<and> dict_get out ''id'' = None
           \<and> dict_get out ''livestreams'' = Some (JList [])
           \<and> dict_get out ''shorts'' = Some (JList [])
           \<and> dict_get out ''comment_authors'' = Some (JDict [])
           \<and> dict_get out ''videos'' = Some (JList (map (migrated_video ?de) ?vs))"
    using t h by blast
  show ?thesis using 1 2 unfolding m by simp
qed

subsection \<open>Encoding and decoding\<close>

lemma map_decode_encode:
  "\<forall>v \<in> set xs. \<forall>ctx. vfd (vtd v) ctx = v \<Longrightarrow> map ((\<lambda>video. vfd video c) \<circ> vtd) xs = xs"
  by (induction xs) auto

text \<open>
  C2. For every encoded dictionary and path, \<^verbatim>\<open>Archive._from_dict\<close> returns an archive
  whose \<open>comment_authors\<close> is empty, so decoding the encoding of an archive with a
  non-empty author registry does not give the registry back. The round trip keeps the
  version and the url, and the three buckets position by position; the buckets are
  given back as they were when decoding the encoding of each of their videos gives the
  video back.
\<close>

theorem from_dict_forgets_comment_authors:
  "comment_authors (from_dict vfd afd d p) = Map.empty
   \<and> (comment_authors a \<noteq> Map.empty \<longrightarrow>
        comment_authors (from_dict vfd afd (to_dict vtd atd a) p) \<noteq> comment_authors a)
   \<and> version (from_dict vfd afd (to_dict vtd atd a) p) = version a
   \<and> url (from_dict vfd afd (to_dict vtd atd a) p) = url a
   \<and> length (videos (from_dict vfd afd (to_dict vtd atd a) p)) = length (videos a)
   \<and> length (livestreams (from_dict vfd afd (to_dict vtd atd a) p)) = length (livestreams a)
   \<and> length (shorts (from_dict vfd afd (to_dict vtd atd a) p)) = length (shorts a)
   \<and> ((\<forall>v \<in> set (videos a @ livestreams a @ shorts a). \<forall>ctx. vfd (vtd v) ctx = v) \<longrightarrow>
        videos (from_dict vfd afd (to_dict vtd atd a) p) = videos a
        \<and> livestreams (from_dict vfd afd (to_dict vtd atd a) p) = livestreams a
        \<and> shorts (from_dict vfd afd (to_dict vtd atd a) p) = shorts a)"
proof -
  have e: "comment_authors (from_dict vfd afd d p) = Map.empty" for d
    by (simp add: from_dict_def Let_def)
  have rt: "videos (from_dict vfd afd (to_dict vtd atd a) p) = videos a
        \<and> livestreams (from_dict vfd afd (to_dict vtd atd a) p) = livestreams a
        \<and> shorts (from_dict vfd afd (to_dict vtd atd a) p) = shorts a"
    if "\<forall>v \<in> set (videos a @ livestreams a @ shorts a). \<forall>ctx. vfd (vtd v) ctx = v"
  proof -
    have v: "\<forall>v \<in> set (videos a). \<forall>ctx. vfd (vtd v) ctx = v"
      and l: "\<forall>v \<in> set (livestreams a). \<forall>ctx. vfd (vtd v) ctx = v"
      and s: "\<forall>v \<in> set (shorts a). \<forall>ctx. vfd (vtd v) ctx = v"
      using that by auto
    have m: "map ((\<lambda>video. vfd video c) \<circ> vtd) (videos a) = videos a"
      "map ((\<lambda>video. vfd video c) \<circ> vtd) (livestreams a) = livestreams a"
      "map ((\<lambda>video. vfd video c) \<circ> vtd) (shorts a) = shorts a" for c
      using v l s by (simp_all add: map_decode_encode [of _ vfd vtd])
    show ?thesis
      by (simp add: from_dict_def to_dict_def Let_def m)
  qed
  have ne: "comment_authors (from_dict vfd afd (to_dict vtd atd a) p) \<noteq> comment_authors a"
    if "comment_authors a \<noteq> Map.empty"
    using that e [of "to_dict vtd atd a"] by simp
  have vu: "version (from_dict vfd afd (to_dict vtd atd a) p) = version a"
    "url (from_dict vfd afd (to_dict vtd atd a) p) = url a"
    "length (videos (from_dict vfd afd (to_dict vtd atd a) p)) = length (videos a)"
    "length (livestreams (from_dict vfd afd (to_dict vtd atd a) p)) = length (livestreams a)"
    "length (shorts (from_dict vfd afd (to_dict vtd atd a) p)) = length (shorts a)"
    by (simp_all add: from_dict_def to_dict_def Let_def)
  show ?thesis
    using e [of d] ne vu rt by blast
qed

theorem from_dict_forgets_comment_authors_witness:
  "comment_authors example_archive \<noteq> Map.empty
   \<and> comment_authors (from_dict (\<lambda>ev ctx. ev) (\<lambda>i ea. ea)
        (to_dict (\<lambda>v. v) (\<lambda>a. a) example_archive) ''demo'') \<noteq> comment_authors example_archive
   \<and> videos (from_dict (\<lambda>ev ctx. ev) (\<lambda>i ea. ea)
        (to_dict (\<lambda>v. v) (\<lambda>a. a) example_archive) ''demo'') = [''a'', ''b'']
   \<and> livestreams (from_dict (\<lambda>ev ctx. ev) (\<lambda>i ea. ea)
        (to_dict (\<lambda>v. v) (\<lambda>a. a) example_archive) ''demo'') = [''c'']
   \<and> shorts (from_dict (\<lambda>ev ctx. ev) (\<lambda>i ea. ea)
        (to_dict (\<lambda>v. v) (\<lambda>a. a) example_archive) ''demo'') = []"
proof -
  have ne: "comment_authors example_archive \<noteq> Map.empty"
    by (simp add: example_archive_def)
  have rt: "\<forall>v \<in> set (videos example_archive @ livestreams example_archive @ shorts example_archive).
      \<forall>ctx :: (string, nat) archive. (\<lambda>ev ctx. ev) ((\<lambda>v. v) v) ctx = v"
    by simp
  note t = from_dict_forgets_comment_authors [of "\<lambda>ev ctx. ev" "\<lambda>i ea. ea" _ "''demo''"
      example_archive "\<lambda>v. v" "\<lambda>a. a"]
  have b: "videos example_archive = [''a'', ''b'']" "livestreams example_archive = [''c'']"
    "shorts example_archive = []"
    by (simp_all add: example_archive_def)
  have 1: "comment_authors (from_dict (\<lambda>ev ctx. ev) (\<lambda>i ea. ea)
        (to_dict (\<lambda>v. v) (\<lambda>a. a) example_archive) ''demo'') \<noteq> comment_authors example_archive"
    using t ne by blast
  have 2: "videos (from_dict (\<lambda>ev ctx. ev) (\<lambda>i ea. ea)
        (to_dict (\<lambda>v. v) (\<lambda>a. a) example_archive) ''demo'') = videos example_archive
        \<and> livestreams (from_dict (\<lambda>ev ctx. ev) (\<lambda>i ea. ea)
        (to_dict (\<lambda>v. v) (\<lambda>a. a) example_archive) ''demo'') = livestreams example_archive
        \<and> shorts (from_dict (\<lambda>ev ctx. ev) (\<lambda>i ea. ea)
        (to_dict (\<lambda>v. v) (\<lambda>a. a) example_archive) ''demo'') = shorts example_archive"
    using t rt by blast
  show ?thesis using ne 1 2 b by simp
qed

subsection \<open>Persisting\<close>

lemma join_distinct:
  "join p ''yark.json'' \<noteq> join p ''yark.bak''" "join p ''yark.json'' \<noteq> p"
  "join p ''yark.json'' \<noteq> join p ''images''" "join p ''yark.json'' \<noteq> join p ''videos''"
  "join p ''yark.bak'' \<noteq> p"
  "join p ''yark.bak'' \<noteq> join p ''images''" "join p ''yark.bak'' \<noteq> join p ''videos''"
  "join p ''images'' \<noteq> p" "join p ''videos'' \<noteq> p"
  "join p ''images'' \<noteq> join p ''videos''"
  by (simp_all add: join_def)

lemma backup_text_suffix:
  "drop (length (backup_text now_iso old) - length old) (backup_text now_iso old) = old"
  by (simp add: backup_text_def)

lemma parent_append_slash:
  assumes "p \<noteq> []" and "CHR ''/'' \<notin> set name"
  shows "parent (p @ ''/'' @ name) = p"
proof -
  have "dropWhile (\<lambda>c. c \<noteq> CHR ''/'') (rev name @ ''/'' @ rev p) = ''/'' @ rev p"
    using assms(2) by (subst dropWhile_append2) auto
  then have "rev (dropWhile (\<lambda>c. c \<noteq> CHR ''/'') (rev (p @ ''/'' @ name))) = p @ ''/''"
    by simp
  then show ?thesis using assms(1) by (simp add: parent_def Let_def)
qed

lemma parent_join:
  assumes "p \<noteq> []"
  shows "parent (join p ''yark.json'') = p" "parent (join p ''yark.bak'') = p"
    "parent (join p ''images'') = p" "parent (join p ''videos'') = p"
  unfolding join_def using assms by (simp_all add: parent_append_slash del: append.simps)

lemma mkdir_ok:
  assumes "\<not> path_exists f q" "parent q \<in> dirs f" "parent q \<notin> dom (files f)"
  shows "mkdir q f = Inr (f\<lparr>dirs := insert q (dirs f)\<rparr>)"
  using assms by (simp add: mkdir_def parent_error_def)

lemma ensure_dirs_children:
  assumes "p \<in> dirs f" "p \<notin> dom (files f)" "\<forall>q \<in> set qs. parent q = p"
  shows "\<exists>f'. ensure_dirs qs f = Inr f' \<and> files f' = files f \<and> dirs f \<subseteq> dirs f'
           \<and> dirs f' \<subseteq> dirs f \<union> set qs \<and> (\<forall>q \<in> set qs. path_exists f' q)"
  using assms
proof (induction qs arbitrary: f)
  case Nil
  then show ?case by simp
next
  case (Cons q qs)
  show ?case
  proof (cases "path_exists f q")
    case True
    obtain f' where f': "ensure_dirs qs f = Inr f'" "files f' = files f" "dirs f \<subseteq> dirs f'"
      "dirs f' \<subseteq> dirs f \<union> set qs" "\<forall>q \<in> set qs. path_exists f' q"
      using Cons.IH [of f] Cons.prems by auto
    have "path_exists f' q" using True f'(2,3) by (auto simp: path_exists_def)
    then show ?thesis using True f' by auto
  next
    case False
    let ?g = "f\<lparr>dirs := insert q (dirs f)\<rparr>"
    have pq: "parent q = p" using Cons.prems(3) by simp
    have m: "mkdir q f = Inr ?g"
      using False Cons.prems(1,2) pq by (simp add: mkdir_ok)
    obtain f' where f': "ensure_dirs qs ?g = Inr f'" "files f' = files ?g" "dirs ?g \<subseteq> dirs f'"
      "dirs f' \<subseteq> dirs ?g \<union> set qs" "\<forall>q \<in> set qs. path_exists f' q"
      using Cons.IH [of ?g] Cons.prems by auto
    have "path_exists f' q" using f'(3) by (auto simp: path_exists_def)
    then show ?thesis using False m f' by auto
  qed
qed

lemma ensure_dirs_archive:
  assumes pne: "p \<noteq> []" and pf: "p \<notin> dom (files f)"
    and pd: "p \<in> dirs f \<or> (parent p \<in> dirs f \<and> parent p \<notin> dom (files f))"
  shows "\<exists>f'. ensure_dirs [p, join p ''images'', join p ''videos''] f = Inr f'
           \<and> files f' = files f \<and> dirs f \<subseteq> dirs f'
           \<and> dirs f' \<subseteq> dirs f \<union> {p, join p ''images'', join p ''videos''}
           \<and> p \<in> dirs f' \<and> path_exists f' (join p ''images'')
           \<and> path_exists f' (join p ''videos'')"
proof -
  let ?qs = "[join p ''images'', join p ''videos'']"
  have par: "\<forall>q \<in> set ?qs. parent q = p" using pne by (simp add: parent_join)
  show ?thesis
  proof (cases "p \<in> dirs f")
    case True
    obtain f' where f': "ensure_dirs ?qs f = Inr f'" "files f' = files f" "dirs f \<subseteq> dirs f'"
      "dirs f' \<subseteq> dirs f \<union> set ?qs" "\<forall>q \<in> set ?qs. path_exists f' q"
      using ensure_dirs_children [OF True pf par] by blast
    have e: "ensure_dirs [p, join p ''images'', join p ''videos''] f = Inr f'"
      using True f'(1) by (simp add: path_exists_def)
    have "p \<in> dirs f'" using True f'(3) by blast
    moreover have "dirs f' \<subseteq> dirs f \<union> {p, join p ''images'', join p ''videos''}"
      using f'(4) by auto
    ultimately show ?thesis using e f'(2,3,5) by simp
  next
    case False
    let ?g = "f\<lparr>dirs := insert p (dirs f)\<rparr>"
    have ne: "\<not> path_exists f p" using False pf by (simp add: path_exists_def)
    have m: "mkdir p f = Inr ?g" using ne pd False by (simp add: mkdir_ok)
    have g1: "p \<in> dirs ?g" and g2: "p \<notin> dom (files ?g)" using pf by simp_all
    obtain f' where f': "ensure_dirs ?qs ?g = Inr f'" "files f' = files ?g" "dirs ?g \<subseteq> dirs f'"
      "dirs f' \<subseteq> dirs ?g \<union> set ?qs" "\<forall>q \<in> set ?qs. path_exists f' q"
      using ensure_dirs_children [OF g1 g2 par] by blast
    have e: "ensure_dirs [p, join p ''images'', join p ''videos''] f = Inr f'"
      using ne m f'(1) by simp
    have "p \<in> dirs f'" using f'(3) by auto
    moreover have "dirs f' \<subseteq> dirs f \<union> {p, join p ''images'', join p ''videos''}"
      using f'(4) by auto
    moreover have "dirs f \<subseteq> dirs f'" using f'(3) by auto
    moreover have "files f' = files f" using f'(2) by simp
    ultimately show ?thesis using e f'(5) by simp
  qed
qed

lemma commit_succeeds:
  assumes pne: "path self \<noteq> []"
    and jd: "join (path self) ''yark.json'' \<notin> dirs f"
    and bd: "join (path self) ''yark.bak'' \<notin> dirs f"
    and pf: "path self \<notin> dom (files f)"
    and pd: "path self \<in> dirs f
         \<or> (files f (join (path self) ''yark.json'') = None
            \<and> parent (path self) \<in> dirs f \<and> parent (path self) \<notin> dom (files f))"
  shows "\<exists>f'. commit dump vtd atd now_iso self f = Inr f'
        \<and> files f' (join (path self) ''yark.json'') = Some (dump (to_dict vtd atd self))
        \<and> (\<forall>old. files f (join (path self) ''yark.json'') = Some old \<longrightarrow>
              backup now_iso self f =
                Inr (f\<lparr>files := (files f)(join (path self) ''yark.bak'' \<mapsto> backup_text now_iso old)\<rparr>)
              \<and> files f' (join (path self) ''yark.bak'') = Some (backup_text now_iso old)
              \<and> drop (length (backup_text now_iso old) - length old) (backup_text now_iso old) = old)
        \<and> (files f (join (path self) ''yark.json'') = None \<longrightarrow>
              backup now_iso self f = Inr f
              \<and> files f' (join (path self) ''yark.bak'') = files f (join (path self) ''yark.bak''))
        \<and> path self \<in> dirs f' \<and> path_exists f' (join (path self) ''images'')
        \<and> path_exists f' (join (path self) ''videos'')"
proof -
  let ?p = "path self"
  let ?j = "join (path self) ''yark.json''" and ?b = "join (path self) ''yark.bak''"
  obtain f1 where f1: "backup now_iso self f = Inr f1"
    and f1_some: "\<And>old. files f ?j = Some old \<Longrightarrow>
        f1 = f\<lparr>files := (files f)(?b \<mapsto> backup_text now_iso old)\<rparr>"
    and f1_none: "files f ?j = None \<Longrightarrow> f1 = f"
  proof (cases "files f ?j")
    case None
    then have "backup now_iso self f = Inr f"
      using jd by (simp add: backup_def path_exists_def dom_def)
    then show ?thesis using that None by simp
  next
    case (Some old)
    then have "?p \<in> dirs f" using pd by auto
    then have "write_file f ?b (backup_text now_iso old) =
        Inr (f\<lparr>files := (files f)(?b \<mapsto> backup_text now_iso old)\<rparr>)"
      using bd pf pne by (simp add: write_file_def parent_error_def parent_join)
    then have "backup now_iso self f = Inr (f\<lparr>files := (files f)(?b \<mapsto> backup_text now_iso old)\<rparr>)"
      using Some by (simp add: backup_def path_exists_def dom_def)
    then show ?thesis using that Some by simp
  qed
  have d1: "dirs f1 = dirs f"
    by (cases "files f ?j") (auto simp: f1_some f1_none)
  have pf1: "?p \<notin> dom (files f1)"
    using pf join_distinct(5) [of ?p] by (cases "files f ?j") (auto simp: f1_some f1_none)
  have pd1: "?p \<in> dirs f1 \<or> (parent ?p \<in> dirs f1 \<and> parent ?p \<notin> dom (files f1))"
  proof (cases "?p \<in> dirs f")
    case True
    then show ?thesis by (simp add: d1)
  next
    case False
    then have "files f ?j = None \<and> parent ?p \<in> dirs f \<and> parent ?p \<notin> dom (files f)"
      using pd by blast
    then show ?thesis using f1_none by simp
  qed
  obtain f2 where f2: "ensure_dirs [?p, join ?p ''images'', join ?p ''videos''] f1 = Inr f2"
    and files2: "files f2 = files f1"
    and dirs2: "dirs f2 \<subseteq> dirs f1 \<union> {?p, join ?p ''images'', join ?p ''videos''}"
    and p2: "?p \<in> dirs f2"
    and ex2: "path_exists f2 (join ?p ''images'')" "path_exists f2 (join ?p ''videos'')"
    using ensure_dirs_archive [OF pne pf1 pd1] by blast
  have jnd: "?j \<notin> dirs f2"
    using dirs2 jd d1 join_distinct(2,3,4) [of ?p] by auto
  define f' where "f' = f2\<lparr>files := (files f2)(?j \<mapsto> dump (to_dict vtd atd self))\<rparr>"
  have w: "write_file f2 ?j (dump (to_dict vtd atd self)) = Inr f'"
    using jnd p2 pf1 pne by (simp add: write_file_def parent_error_def parent_join files2 f'_def)
  have c: "commit dump vtd atd now_iso self f = Inr f'"
    by (simp add: commit_def f1 f2 w del: ensure_dirs.simps)
  have fj: "files f' ?j = Some (dump (to_dict vtd atd self))" by (simp add: f'_def)
  have fb: "files f' ?b = files f1 ?b"
    using join_distinct(1) [of ?p] files2 by (simp add: f'_def)
  have ex: "?p \<in> dirs f'" "path_exists f' (join ?p ''images'')"
    "path_exists f' (join ?p ''videos'')"
    using p2 ex2 by (auto simp: f'_def path_exists_def)
  have some: "backup now_iso self f =
                Inr (f\<lparr>files := (files f)(?b \<mapsto> backup_text now_iso old)\<rparr>)
              \<and> files f' ?b = Some (backup_text now_iso old)
              \<and> drop (length (backup_text now_iso old) - length old) (backup_text now_iso old) = old"
    if "files f ?j = Some old" for old
    using f1 f1_some [OF that] fb backup_text_suffix [of now_iso old] by simp
  have none: "backup now_iso self f = Inr f \<and> files f' ?b = files f ?b"
    if "files f ?j = None"
    using f1 f1_none [OF that] fb by simp
  show ?thesis
  proof (rule exI [of _ f'], intro conjI allI impI)
    show "commit dump vtd atd now_iso self f = Inr f'" by (rule c)
    show "files f' ?j = Some (dump (to_dict vtd atd self))" by (rule fj)
    show "?p \<in> dirs f'" "path_exists f' (join ?p ''images'')"
      "path_exists f' (join ?p ''videos'')" by (rule ex)+
  next
    fix old assume o: "files f ?j = Some old"
    show "backup now_iso self f =
                Inr (f\<lparr>files := (files f)(?b \<mapsto> backup_text now_iso old)\<rparr>)"
      "files f' ?b = Some (backup_text now_iso old)"
      "drop (length (backup_text now_iso old) - length old) (backup_text now_iso old) = old"
      using some [OF o] by blast+
  next
    assume n: "files f ?j = None"
    show "backup now_iso self f = Inr f" "files f' ?b = files f ?b"
      using none [OF n] by blast+
  qed
qed

lemma commit_fails:
  assumes "\<not> path_exists f (join (path self) ''yark.json'')"
    and "\<not> path_exists f (path self)"
    and "parent (path self) \<notin> dirs f \<or> parent (path self) \<in> dom (files f)"
  shows "backup now_iso self f = Inr f"
    and "commit dump vtd atd now_iso self f =
       Inl (OtherException (if parent (path self) \<in> dom (files f)
                            then ''NotADirectoryError'' else ''FileNotFoundError''))"
  using assms by (auto simp: commit_def backup_def mkdir_def parent_error_def)

lemma commit_fails_below_file:
  assumes "path self \<noteq> []" "path self \<in> dom (files f)"
    and "\<not> path_exists f (join (path self) ''yark.json'')"
    and "\<not> path_exists f (join (path self) ''images'')"
  shows "commit dump vtd atd now_iso self f = Inl (OtherException ''NotADirectoryError'')"
  using assms by (simp add: commit_def backup_def mkdir_def parent_error_def path_exists_def
      parent_join)

text \<open>
  C10 (as amended). Let the archive directory be no regular file and let neither
  \<^verbatim>\<open>yark.json\<close> nor \<^verbatim>\<open>yark.bak\<close> of the archive be a directory. If the archive directory
  exists, or if it does not, no primary file is there and its parent is a directory, a
  commit succeeds and writes the primary file. When a primary file was there before, the
  backup is written first, from the contents the primary file had before the commit: after
  the commit the backup file holds the two comment lines followed by exactly those
  contents. When no primary file was there, the backup step does nothing (it raises
  nothing and leaves the file system, the backup file included, as it was), and the commit
  still writes the primary file. The archive directory and its \<^verbatim>\<open>images\<close> and \<^verbatim>\<open>videos\<close>
  exist afterwards. If neither the primary file nor the archive directory exists and the
  parent of the archive directory is missing or is a regular file, the backup step does
  nothing and the commit raises \<^verbatim>\<open>FileNotFoundError\<close> or \<^verbatim>\<open>NotADirectoryError\<close> from
  \<^verbatim>\<open>mkdir\<close>: no primary file is written. If the archive path is a regular file, the commit
  raises \<^verbatim>\<open>NotADirectoryError\<close>.
\<close>

theorem commit_backs_up_first:
  "(path self \<noteq> []
      \<and> join (path self) ''yark.json'' \<notin> dirs f \<and> join (path self) ''yark.bak'' \<notin> dirs f
      \<and> path self \<notin> dom (files f)
      \<and> (path self \<in> dirs f
          \<or> (files f (join (path self) ''yark.json'') = None
             \<and> parent (path self) \<in> dirs f \<and> parent (path self) \<notin> dom (files f)))
    \<longrightarrow> (\<exists>f'. commit dump vtd atd now_iso self f = Inr f'
        \<and> files f' (join (path self) ''yark.json'') = Some (dump (to_dict vtd atd self))
        \<and> (\<forall>old. files f (join (path self) ''yark.json'') = Some old \<longrightarrow>
              backup now_iso self f =
                Inr (f\<lparr>files := (files f)(join (path self) ''yark.bak'' \<mapsto> backup_text now_iso old)\<rparr>)
              \<and> files f' (join (path self) ''yark.bak'') = Some (backup_text now_iso old)
              \<and> drop (length (backup_text now_iso old) - length old) (backup_text now_iso old) = old)
        \<and> (files f (join (path self) ''yark.json'') = None \<longrightarrow>
              backup now_iso self f = Inr f
              \<and> files f' (join (path self) ''yark.bak'') = files f (join (path self) ''yark.bak''))
        \<and> path self \<in> dirs f' \<and> path_exists f' (join (path self) ''images'')
        \<and> path_exists f' (join (path self) ''videos'')))
   \<and> (\<not> path_exists f (join (path self) ''yark.json'') \<and> \<not> path_exists f (path self)
      \<and> (parent (path self) \<notin> dirs f \<or> parent (path self) \<in> dom (files f))
    \<longrightarrow> backup now_iso self f = Inr f
      \<and> commit dump vtd atd now_iso self f =
          Inl (OtherException (if parent (path self) \<in> dom (files f)
                               then ''NotADirectoryError'' else ''FileNotFoundError'')))
   \<and> (path self \<noteq> [] \<and> path self \<in> dom (files f)
      \<and> \<not> path_exists f (join (path self) ''yark.json'')
      \<and> \<not> path_exists f (join (path self) ''images'')
    \<longrightarrow> commit dump vtd atd now_iso self f = Inl (OtherException ''NotADirectoryError''))"
proof (intro conjI impI)
  assume h: "path self \<noteq> []
      \<and> join (path self) ''yark.json'' \<notin> dirs f \<and> join (path self) ''yark.bak'' \<notin> dirs f
      \<and> path self \<notin> dom (files f)
      \<and> (path self \<in> dirs f
          \<or> (files f (join (path self) ''yark.json'') = None
             \<and> parent (path self) \<in> dirs f \<and> parent (path self) \<notin> dom (files f)))"
  have h1: "path self \<noteq> []" and h2: "join (path self) ''yark.json'' \<notin> dirs f"
    and h3: "join (path self) ''yark.bak'' \<notin> dirs f" and h4: "path self \<notin> dom (files f)"
    and h5: "path self \<in> dirs f
          \<or> (files f (join (path self) ''yark.json'') = None
             \<and> parent (path self) \<in> dirs f \<and> parent (path self) \<notin> dom (files f))"
    using h by blast+
  show "\<exists>f'. commit dump vtd atd now_iso self f = Inr f'
        \<and> files f' (join (path self) ''yark.json'') = Some (dump (to_dict vtd atd self))
        \<and> (\<forall>old. files f (join (path self) ''yark.json'') = Some old \<longrightarrow>
              backup now_iso self f =
                Inr (f\<lparr>files := (files f)(join (path self) ''yark.bak'' \<mapsto> backup_text now_iso old)\<rparr>)
              \<and> files f' (join (path self) ''yark.bak'') = Some (backup_text now_iso old)
              \<and> drop (length (backup_text now_iso old) - length old) (backup_text now_iso old) = old)
        \<and> (files f (join (path self) ''yark.json'') = None \<longrightarrow>
              backup now_iso self f = Inr f
              \<and> files f' (join (path self) ''yark.bak'') = files f (join (path self) ''yark.bak''))
        \<and> path self \<in> dirs f' \<and> path_exists f' (join (path self) ''images'')
        \<and> path_exists f' (join (path self) ''videos'')"
    by (rule commit_succeeds [OF h1 h2 h3 h4 h5])
next
  assume h: "\<not> path_exists f (join (path self) ''yark.json'') \<and> \<not> path_exists f (path self)
      \<and> (parent (path self) \<notin> dirs f \<or> parent (path self) \<in> dom (files f))"
  have h1: "\<not> path_exists f (join (path self) ''yark.json'')"
    and h2: "\<not> path_exists f (path self)"
    and h3: "parent (path self) \<notin> dirs f \<or> parent (path self) \<in> dom (files f)"
    using h by blast+
  show "backup now_iso self f = Inr f"
    by (rule commit_fails(1) [OF h1 h2 h3])
  show "commit dump vtd atd now_iso self f =
          Inl (OtherException (if parent (path self) \<in> dom (files f)
                               then ''NotADirectoryError'' else ''FileNotFoundError''))"
    by (rule commit_fails(2) [OF h1 h2 h3])
next
  assume h: "path self \<noteq> [] \<and> path self \<in> dom (files f)
      \<and> \<not> path_exists f (join (path self) ''yark.json'')
      \<and> \<not> path_exists f (join (path self) ''images'')"
  have h1: "path self \<noteq> []" and h2: "path self \<in> dom (files f)"
    and h3: "\<not> path_exists f (join (path self) ''yark.json'')"
    and h4: "\<not> path_exists f (join (path self) ''images'')"
    using h by blast+
  show "commit dump vtd atd now_iso self f = Inl (OtherException ''NotADirectoryError'')"
    by (rule commit_fails_below_file [OF h1 h2 h3 h4])
qed

text \<open>
  The theorem on an archive with a primary file, on an archive whose directory is yet to
  be created in the current directory, on an archive below a missing directory, and on an
  archive path that is a regular file.
\<close>

theorem commit_backs_up_first_witness:
  "(\<exists>f'. commit (\<lambda>e. ''{new}'') (\<lambda>v. v) (\<lambda>a. a) ''2023-01-01'' example_archive example_fs = Inr f'
      \<and> files f' ''demo/yark.json'' = Some ''{new}''
      \<and> files f' ''demo/yark.bak'' = Some (backup_text ''2023-01-01'' ''{old}''))
   \<and> (\<exists>f'. commit (\<lambda>e. ''{new}'') (\<lambda>v. v) (\<lambda>a. a) ''2023-01-01'' example_archive empty_fs = Inr f'
      \<and> files f' ''demo/yark.json'' = Some ''{new}''
      \<and> files f' ''demo/yark.bak'' = None
      \<and> ''demo'' \<in> dirs f')
   \<and> commit (\<lambda>e. ''{new}'') (\<lambda>v. v) (\<lambda>a. a) ''2023-01-01''
        (example_archive\<lparr>path := ''missing/demo''\<rparr>) empty_fs =
      Inl (OtherException ''FileNotFoundError'')
   \<and> commit (\<lambda>e. ''{new}'') (\<lambda>v. v) (\<lambda>a. a) ''2023-01-01'' example_archive
        \<lparr>files = [''demo'' \<mapsto> ''x''], dirs = {''.''}\<rparr> =
      Inl (OtherException ''NotADirectoryError'')"
proof -
  let ?m = "example_archive\<lparr>path := ''missing/demo''\<rparr>"
  let ?g = "\<lparr>files = [''demo'' \<mapsto> ''x''], dirs = {''.''}\<rparr>"
  have p: "path example_archive = ''demo''" by (simp add: example_archive_def)
  have pm: "path ?m = ''missing/demo''" by simp
  have j: "join ''demo'' ''yark.json'' = ''demo/yark.json''"
    "join ''demo'' ''yark.bak'' = ''demo/yark.bak''"
    by (simp_all add: join_def)
  have par: "parent ''demo'' = ''.''" "parent ''missing/demo'' = ''missing''"
    by (simp_all add: parent_def)
  have h1: "path example_archive \<noteq> []
      \<and> join (path example_archive) ''yark.json'' \<notin> dirs example_fs
      \<and> join (path example_archive) ''yark.bak'' \<notin> dirs example_fs
      \<and> path example_archive \<notin> dom (files example_fs)
      \<and> (path example_archive \<in> dirs example_fs
          \<or> (files example_fs (join (path example_archive) ''yark.json'') = None
             \<and> parent (path example_archive) \<in> dirs example_fs
             \<and> parent (path example_archive) \<notin> dom (files example_fs)))"
    by (simp add: p j example_fs_def)
  have h2: "path example_archive \<noteq> []
      \<and> join (path example_archive) ''yark.json'' \<notin> dirs empty_fs
      \<and> join (path example_archive) ''yark.bak'' \<notin> dirs empty_fs
      \<and> path example_archive \<notin> dom (files empty_fs)
      \<and> (path example_archive \<in> dirs empty_fs
          \<or> (files empty_fs (join (path example_archive) ''yark.json'') = None
             \<and> parent (path example_archive) \<in> dirs empty_fs
             \<and> parent (path example_archive) \<notin> dom (files empty_fs)))"
    by (simp add: p j par empty_fs_def)
  have h3: "\<not> path_exists empty_fs (join (path ?m) ''yark.json'')
      \<and> \<not> path_exists empty_fs (path ?m)
      \<and> (parent (path ?m) \<notin> dirs empty_fs \<or> parent (path ?m) \<in> dom (files empty_fs))"
    by (simp add: par empty_fs_def path_exists_def join_def)
  have h4: "path example_archive \<noteq> [] \<and> path example_archive \<in> dom (files ?g)
      \<and> \<not> path_exists ?g (join (path example_archive) ''yark.json'')
      \<and> \<not> path_exists ?g (join (path example_archive) ''images'')"
    by (simp add: p path_exists_def join_def)
  have o: "files example_fs ''demo/yark.json'' = Some ''{old}''"
    by (simp add: example_fs_def)
  have n: "files empty_fs ''demo/yark.json'' = None" "files empty_fs ''demo/yark.bak'' = None"
    by (simp_all add: empty_fs_def)
  note t1 = commit_backs_up_first [of example_archive example_fs "\<lambda>e. ''{new}''" "\<lambda>v. v" "\<lambda>a. a"
      "''2023-01-01''", THEN conjunct1, THEN mp, OF h1]
  note t2 = commit_backs_up_first [of example_archive empty_fs "\<lambda>e. ''{new}''" "\<lambda>v. v" "\<lambda>a. a"
      "''2023-01-01''", THEN conjunct1, THEN mp, OF h2]
  note t3 = commit_backs_up_first [of ?m empty_fs "\<lambda>e. ''{new}''" "\<lambda>v. v" "\<lambda>a. a"
      "''2023-01-01''", THEN conjunct2, THEN conjunct1, THEN mp, OF h3]
  note t4 = commit_backs_up_first [of example_archive ?g "\<lambda>e. ''{new}''" "\<lambda>v. v" "\<lambda>a. a"
      "''2023-01-01''", THEN conjunct2, THEN conjunct2, THEN mp, OF h4]
  have a: "\<exists>f'. commit (\<lambda>e. ''{new}'') (\<lambda>v. v) (\<lambda>a. a) ''2023-01-01'' example_archive example_fs = Inr f'
      \<and> files f' ''demo/yark.json'' = Some ''{new}''
      \<and> files f' ''demo/yark.bak'' = Some (backup_text ''2023-01-01'' ''{old}'')"
    using t1 o unfolding p j by blast
  have b: "\<exists>f'. commit (\<lambda>e. ''{new}'') (\<lambda>v. v) (\<lambda>a. a) ''2023-01-01'' example_archive empty_fs = Inr f'
      \<and> files f' ''demo/yark.json'' = Some ''{new}''
      \<and> files f' ''demo/yark.bak'' = None
      \<and> ''demo'' \<in> dirs f'"
    using t2 n unfolding p j by metis
  have c: "commit (\<lambda>e. ''{new}'') (\<lambda>v. v) (\<lambda>a. a) ''2023-01-01'' ?m empty_fs =
      Inl (OtherException ''FileNotFoundError'')"
    using t3 by (simp add: par empty_fs_def)
  have d: "commit (\<lambda>e. ''{new}'') (\<lambda>v. v) (\<lambda>a. a) ''2023-01-01'' example_archive ?g =
      Inl (OtherException ''NotADirectoryError'')"
    by (rule t4)
  show ?thesis by (intro conjI) (rule a b c d)+
qed

text \<open>
  Without the condition on the archive directory a commit with no prior primary file does
  not write the primary file: for the archive path \<^verbatim>\<open>missing/demo\<close> in an empty current
  directory the backup step is skipped and \<^verbatim>\<open>mkdir\<close> raises.
\<close>

theorem commit_fails_without_parent:
  "files empty_fs (join (path (example_archive\<lparr>path := ''missing/demo''\<rparr>)) ''yark.json'') = None
   \<and> \<not> path_exists empty_fs (join (path (example_archive\<lparr>path := ''missing/demo''\<rparr>)) ''yark.json'')
   \<and> backup ''2023-01-01'' (example_archive\<lparr>path := ''missing/demo''\<rparr>) empty_fs = Inr empty_fs
   \<and> commit (\<lambda>e. ''{new}'') (\<lambda>v. v) (\<lambda>a. a) ''2023-01-01''
        (example_archive\<lparr>path := ''missing/demo''\<rparr>) empty_fs =
      Inl (OtherException ''FileNotFoundError'')"
  by (simp add: commit_def backup_def mkdir_def parent_error_def path_exists_def join_def
      parent_def empty_fs_def)

end
